theory Spec2Isabelle
  imports Complex_Main
begin

section \<open>Numeric model and JUCE helpers\<close>

text \<open>
  The reverb engine computes on \<open>float\<close> and \<open>double\<close>. Both are modelled by \<open>real\<close>:
  every statement below is about the arithmetic the code writes down, over the reals,
  and says nothing about rounding. Array indices and lengths are \<open>int\<close> in the source;
  cursors and lengths that the code keeps non-negative are \<open>nat\<close> here.

  The three JUCE helpers the engine calls are modelled from their library definitions:
  \<open>jlimit (lower, upper, v)\<close> is \<open>v < lower ? lower : (upper < v ? upper : v)\<close>,
  \<open>jmap (v, s0, s1, t0, t1)\<close> is \<open>t0 + ((t1 - t0) * (v - s0)) / (s1 - s0)\<close>, and
  \<open>Decibels::decibelsToGain (dB)\<close> is \<open>dB > -100 ? pow (10, dB * 0.05) : 0\<close>.
\<close>

definition jlimit :: "'a::linorder \<Rightarrow> 'a \<Rightarrow> 'a \<Rightarrow> 'a" where
  "jlimit lowerLimit upperLimit valueToConstrain =
     (if valueToConstrain < lowerLimit then lowerLimit
      else if upperLimit < valueToConstrain then upperLimit
      else valueToConstrain)"

definition jmap :: "real \<Rightarrow> real \<Rightarrow> real \<Rightarrow> real \<Rightarrow> real \<Rightarrow> real" where
  "jmap sourceValue sourceRangeMin sourceRangeMax targetRangeMin targetRangeMax =
     targetRangeMin + ((targetRangeMax - targetRangeMin) * (sourceValue - sourceRangeMin))
                        / (sourceRangeMax - sourceRangeMin)"

definition decibelsToGain :: "real \<Rightarrow> real" where
  "decibelsToGain decibels = (if decibels > -100 then 10 powr (decibels * 0.05) else 0)"

text \<open>\<open>static_cast<int>\<close> of a \<open>double\<close> truncates toward zero.\<close>

definition static_cast_int :: "real \<Rightarrow> int" where
  "static_cast_int x = (if 0 \<le> x then \<lfloor>x\<rfloor> else \<lceil>x\<rceil>)"

text \<open>
  \<open>juce::FloatVectorOperations\<close> on the first \<open>n\<close> elements of a destination array;
  the elements from \<open>n\<close> on are left as they are.
\<close>

definition fvo_copy :: "real list \<Rightarrow> real list \<Rightarrow> nat \<Rightarrow> real list" where
  "fvo_copy dest src n = take n src @ drop n dest"

definition fvo_add :: "real list \<Rightarrow> real list \<Rightarrow> nat \<Rightarrow> real list" where
  "fvo_add dest src n = map2 (\<lambda>d s. d + s) (take n dest) (take n src) @ drop n dest"

definition fvo_multiply :: "real list \<Rightarrow> real \<Rightarrow> nat \<Rightarrow> real list" where
  "fvo_multiply dest multiplier n = map (\<lambda>d. d * multiplier) (take n dest) @ drop n dest"

definition fvo_addWithMultiply :: "real list \<Rightarrow> real list \<Rightarrow> real \<Rightarrow> nat \<Rightarrow> real list" where
  "fvo_addWithMultiply dest src multiplier n =
     map2 (\<lambda>d s. d + s * multiplier) (take n dest) (take n src) @ drop n dest"

section \<open>SharcCombFilter\<close>

record SharcCombFilter =
  delayLine :: "real list"
  delaySamples :: nat
  writeIndex :: nat
  feedbackGain :: real
  dampingCoeff :: real
  filterState :: real
  sRate :: real
  prepared :: bool

text \<open>The member initialisers of the class: the state of a default-constructed filter.\<close>

definition comb_default :: SharcCombFilter where
  "comb_default = \<lparr> delayLine = [], delaySamples = 1000, writeIndex = 0,
     feedbackGain = 0.7, dampingCoeff = 0.5, filterState = 0, sRate = 48000,
     prepared = False \<rparr>"

definition comb_prepare :: "real \<Rightarrow> int \<Rightarrow> real \<Rightarrow> real \<Rightarrow> SharcCombFilter \<Rightarrow> SharcCombFilter" where
  "comb_prepare sr maxDelaySamples initialGain dampingFreq c =
     c\<lparr> delayLine := replicate (nat maxDelaySamples) 0,
        writeIndex := 0,
        delaySamples := nat (jlimit 1 maxDelaySamples maxDelaySamples),
        feedbackGain := initialGain,
        sRate := sr,
        dampingCoeff := exp (- (2 * pi) * dampingFreq / sr),
        filterState := 0,
        prepared := True \<rparr>"

definition comb_setDelaySamples :: "int \<Rightarrow> SharcCombFilter \<Rightarrow> SharcCombFilter" where
  "comb_setDelaySamples newDelay c =
     c\<lparr> delaySamples := nat (jlimit 1 (int (length (delayLine c))) newDelay) \<rparr>"

definition comb_setGain :: "real \<Rightarrow> SharcCombFilter \<Rightarrow> SharcCombFilter" where
  "comb_setGain newGain c = c\<lparr> feedbackGain := jlimit 0 0.99 newGain \<rparr>"

definition comb_setDampingFreq :: "real \<Rightarrow> SharcCombFilter \<Rightarrow> SharcCombFilter" where
  "comb_setDampingFreq freq c = c\<lparr> dampingCoeff := exp (- (2 * pi) * freq / sRate c) \<rparr>"

definition comb_reset :: "SharcCombFilter \<Rightarrow> SharcCombFilter" where
  "comb_reset c = c\<lparr> delayLine := replicate (length (delayLine c)) 0,
                      writeIndex := 0, filterState := 0 \<rparr>"

text \<open>
  The loops of the filters run over the sample index \<open>i\<close>, so each is a \<open>fold\<close> of
  its body over \<open>[0..<numSamples]\<close>. The loop state is the tuple of the locals the
  body updates: the delay line \<open>buffer\<close>, the cursor \<open>idx\<close>, the damping memory
  \<open>flt\<close> and the \<open>output\<close> array. The body reads \<open>input[i]\<close> before it writes
  \<open>output[i]\<close> and touches no other index of either, so the model is also right when
  the caller passes the same array for both, as the allpass chain does.
\<close>

type_synonym comb_locals = "real list \<times> nat \<times> real \<times> real list"

definition comb_scalar_body ::
  "real \<Rightarrow> real \<Rightarrow> nat \<Rightarrow> real list \<Rightarrow> nat \<Rightarrow> comb_locals \<Rightarrow> comb_locals" where
  "comb_scalar_body g damp len input i = (\<lambda>(buffer, idx, flt, output).
     let delayed = buffer ! idx;
         flt' = delayed + damp * (flt - delayed);
         newSample = input ! i + g * flt';
         buffer' = buffer[idx := newSample];
         output' = output[i := newSample];
         idx' = (if idx + 1 \<ge> len then 0 else idx + 1)
     in (buffer', idx', flt', output'))"

definition comb_processBlockScalar ::
  "SharcCombFilter \<Rightarrow> real list \<Rightarrow> real list \<Rightarrow> nat \<Rightarrow> SharcCombFilter \<times> real list" where
  "comb_processBlockScalar c input output numSamples =
     (if \<not> prepared c then (c, output)
      else
        let (buffer, idx, flt, output') =
              fold (comb_scalar_body (feedbackGain c) (dampingCoeff c) (delaySamples c) input)
                   [0..<numSamples]
                   (delayLine c, writeIndex c, filterState c, output)
        in (c\<lparr> delayLine := buffer, writeIndex := idx, filterState := flt \<rparr>, output'))"

text \<open>
  The vectorized path. \<open>simdWidth\<close> is \<open>juce::dsp::SIMDRegister<float>::size()\<close>, a
  constant of the build (4 with SSE or NEON, 8 with AVX); it is a parameter here.
  One pass of the main loop gathers \<open>simdWidth\<close> delayed samples before it stores any.
\<close>

definition comb_simd_body ::
  "nat \<Rightarrow> real \<Rightarrow> real \<Rightarrow> nat \<Rightarrow> real list \<Rightarrow> nat \<Rightarrow> comb_locals \<Rightarrow> comb_locals" where
  "comb_simd_body simdWidth g damp len input i = (\<lambda>(buffer, idx, flt, output).
     let delayed = map (\<lambda>j. buffer ! ((idx + j) mod len)) [0..<simdWidth];
         inputVec = map (\<lambda>j. input ! (i + j)) [0..<simdWidth];
         (flt', dampedVals) =
            fold (\<lambda>j (f, vals). let f' = delayed ! j + damp * (f - delayed ! j)
                                in (f', vals[j := f']))
                 [0..<simdWidth] (flt, replicate simdWidth 0);
         outVec = map2 (\<lambda>x d. x + g * d) inputVec dampedVals;
         output' = fold (\<lambda>j out. out[i + j := outVec ! j]) [0..<simdWidth] output;
         buffer' = fold (\<lambda>j b. b[(idx + j) mod len := outVec ! j]) [0..<simdWidth] buffer;
         idx' = (idx + simdWidth) mod len
     in (buffer', idx', flt', output'))"

definition comb_processBlockSIMD ::
  "nat \<Rightarrow> SharcCombFilter \<Rightarrow> real list \<Rightarrow> real list \<Rightarrow> nat \<Rightarrow> SharcCombFilter \<times> real list" where
  "comb_processBlockSIMD simdWidth c input output numSamples =
     (if \<not> prepared c then (c, output)
      else
        let g = feedbackGain c; damp = dampingCoeff c; len = delaySamples c;
            vectorSamples = (numSamples div simdWidth) * simdWidth;
            main = fold (comb_simd_body simdWidth g damp len input)
                        (map (\<lambda>k. k * simdWidth) [0..<vectorSamples div simdWidth])
                        (delayLine c, writeIndex c, filterState c, output);
            (buffer, idx, flt, output') =
              fold (comb_scalar_body g damp len input) [vectorSamples..<numSamples] main
        in (c\<lparr> delayLine := buffer, writeIndex := idx, filterState := flt \<rparr>, output'))"

section \<open>SharcAllpassFilter\<close>

record SharcAllpassFilter =
  ap_delayLine :: "real list"
  ap_delaySamples :: nat
  ap_writeIndex :: nat
  apGain :: real
  ap_prepared :: bool

definition ap_default :: SharcAllpassFilter where
  "ap_default = \<lparr> ap_delayLine = [], ap_delaySamples = 500, ap_writeIndex = 0,
     apGain = 0.5, ap_prepared = False \<rparr>"

definition ap_prepare :: "real \<Rightarrow> int \<Rightarrow> real \<Rightarrow> SharcAllpassFilter \<Rightarrow> SharcAllpassFilter" where
  "ap_prepare sr maxDelaySamples initialGain a =
     a\<lparr> ap_delayLine := replicate (nat maxDelaySamples) 0,
        ap_writeIndex := 0,
        ap_delaySamples := nat (jlimit 1 maxDelaySamples maxDelaySamples),
        apGain := initialGain,
        ap_prepared := True \<rparr>"

definition ap_setDelaySamples :: "int \<Rightarrow> SharcAllpassFilter \<Rightarrow> SharcAllpassFilter" where
  "ap_setDelaySamples newDelay a =
     a\<lparr> ap_delaySamples := nat (jlimit 1 (int (length (ap_delayLine a))) newDelay) \<rparr>"

definition ap_setGain :: "real \<Rightarrow> SharcAllpassFilter \<Rightarrow> SharcAllpassFilter" where
  "ap_setGain newGain a = a\<lparr> apGain := jlimit (-0.99) 0.99 newGain \<rparr>"

definition ap_reset :: "SharcAllpassFilter \<Rightarrow> SharcAllpassFilter" where
  "ap_reset a = a\<lparr> ap_delayLine := replicate (length (ap_delayLine a)) 0, ap_writeIndex := 0 \<rparr>"

type_synonym ap_locals = "real list \<times> nat \<times> real list"

definition ap_scalar_body ::
  "real \<Rightarrow> nat \<Rightarrow> real list \<Rightarrow> nat \<Rightarrow> ap_locals \<Rightarrow> ap_locals" where
  "ap_scalar_body g len input i = (\<lambda>(buffer, idx, output).
     let delayed = buffer ! idx;
         out = - g * input ! i + delayed;
         buffer' = buffer[idx := input ! i + delayed * g];
         output' = output[i := out];
         idx' = (if idx + 1 \<ge> len then 0 else idx + 1)
     in (buffer', idx', output'))"

definition ap_processBlockScalar ::
  "SharcAllpassFilter \<Rightarrow> real list \<Rightarrow> real list \<Rightarrow> nat \<Rightarrow> SharcAllpassFilter \<times> real list" where
  "ap_processBlockScalar a input output numSamples =
     (if \<not> ap_prepared a then (a, output)
      else
        let (buffer, idx, output') =
              fold (ap_scalar_body (apGain a) (ap_delaySamples a) input)
                   [0..<numSamples]
                   (ap_delayLine a, ap_writeIndex a, output)
        in (a\<lparr> ap_delayLine := buffer, ap_writeIndex := idx \<rparr>, output'))"

definition ap_simd_body ::
  "nat \<Rightarrow> real \<Rightarrow> nat \<Rightarrow> real list \<Rightarrow> nat \<Rightarrow> ap_locals \<Rightarrow> ap_locals" where
  "ap_simd_body simdWidth g len input i = (\<lambda>(buffer, idx, output).
     let delayed = map (\<lambda>j. buffer ! ((idx + j) mod len)) [0..<simdWidth];
         inputVec = map (\<lambda>j. input ! (i + j)) [0..<simdWidth];
         outVec = map2 (\<lambda>x d. g * x * (-1) + d) inputVec delayed;
         output' = fold (\<lambda>j out. out[i + j := outVec ! j]) [0..<simdWidth] output;
         newVals = map2 (\<lambda>x d. x + g * d) inputVec delayed;
         buffer' = fold (\<lambda>j b. b[(idx + j) mod len := newVals ! j]) [0..<simdWidth] buffer;
         idx' = (idx + simdWidth) mod len
     in (buffer', idx', output'))"

definition ap_processBlockSIMD ::
  "nat \<Rightarrow> SharcAllpassFilter \<Rightarrow> real list \<Rightarrow> real list \<Rightarrow> nat \<Rightarrow> SharcAllpassFilter \<times> real list" where
  "ap_processBlockSIMD simdWidth a input output numSamples =
     (if \<not> ap_prepared a then (a, output)
      else
        let g = apGain a; len = ap_delaySamples a;
            vectorSamples = (numSamples div simdWidth) * simdWidth;
            main = fold (ap_simd_body simdWidth g len input)
                        (map (\<lambda>k. k * simdWidth) [0..<vectorSamples div simdWidth])
                        (ap_delayLine a, ap_writeIndex a, output);
            (buffer, idx, output') =
              fold (ap_scalar_body g len input) [vectorSamples..<numSamples] main
        in (a\<lparr> ap_delayLine := buffer, ap_writeIndex := idx \<rparr>, output'))"

section \<open>DdxReverbAudioProcessor\<close>

text \<open>
  The raw parameter values of the \<open>AudioProcessorValueTreeState\<close>, one \<open>float\<close> per
  parameter id; the two boolean parameters are read by comparing the raw value with 0.5.
\<close>

record Params =
  decay :: real
  predelay :: real
  damping :: real
  diffusion :: real
  hicut :: real
  bassmult :: real
  wet :: real
  bypass :: real
  simd :: real

text \<open>The defaults of \<open>createParameterLayout\<close>.\<close>

definition defaultParams :: Params where
  "defaultParams = \<lparr> decay = 5, predelay = 50, damping = 50, diffusion = 10, hicut = 0,
     bassmult = 0, wet = 0.5, bypass = 0, simd = 0 \<rparr>"

text \<open>
  An audio buffer is the list of its channels. \<open>totalNumInputChannels\<close> and
  \<open>totalNumOutputChannels\<close> are the bus layout kept by the \<open>AudioProcessor\<close> base class.
  \<open>dryBuffer\<close> and \<open>tempBuffer\<close> are scratch space: \<open>processBlock\<close> overwrites the
  samples it later reads from them, so they are locals of the model (\<open>dry\<close>,
  \<open>monoData\<close>) and not part of the state.
\<close>

type_synonym AudioBuffer = "real list list"

definition getNumSamples :: "AudioBuffer \<Rightarrow> nat" where
  "getNumSamples buffer = (case buffer of [] \<Rightarrow> 0 | ch # _ \<Rightarrow> length ch)"

record DdxReverbAudioProcessor =
  apvts :: Params
  combs :: "SharcCombFilter list"
  allpasses :: "SharcAllpassFilter list"
  preDelayBuffer :: "real list"
  preDelayWritePos :: nat
  preDelaySamples :: int
  currentSampleRate :: real
  useSIMD :: bool
  cpuUsage :: real
  totalNumInputChannels :: nat
  totalNumOutputChannels :: nat

definition numCombs :: nat where "numCombs = 4"
definition numAllpasses :: nat where "numAllpasses = 8"

definition combDelays :: "int list" where
  "combDelays = [1116, 1188, 1277, 1356]"

definition allpassDelays :: "int list" where
  "allpassDelays = [556, 441, 313, 391, 347, 113, 37, 59]"

text \<open>The processor as its constructor leaves it, on the stereo-in, stereo-out layout.\<close>

definition constructed :: DdxReverbAudioProcessor where
  "constructed = \<lparr> apvts = defaultParams,
     combs = replicate numCombs comb_default,
     allpasses = replicate numAllpasses ap_default,
     preDelayBuffer = [], preDelayWritePos = 0, preDelaySamples = 0,
     currentSampleRate = 48000, useSIMD = False, cpuUsage = 0,
     totalNumInputChannels = 2, totalNumOutputChannels = 2 \<rparr>"

definition getCpuUsage :: "DdxReverbAudioProcessor \<Rightarrow> real" where
  "getCpuUsage p = cpuUsage p"

definition prepareToPlay ::
  "real \<Rightarrow> int \<Rightarrow> DdxReverbAudioProcessor \<Rightarrow> DdxReverbAudioProcessor" where
  "prepareToPlay sampleRate samplesPerBlock p =
     (let maxPreDelay = static_cast_int (sampleRate * 0.5);
          maxCombDelay = static_cast_int (sampleRate * 0.1);
          maxAPDelay = static_cast_int (sampleRate * 0.05)
      in p\<lparr> currentSampleRate := sampleRate,
             preDelayBuffer := replicate (nat maxPreDelay) 0,
             preDelayWritePos := 0,
             combs := map (\<lambda>i.
                 let scaledDelay = static_cast_int (real_of_int (combDelays ! i) * sampleRate / 48000)
                 in comb_setDelaySamples scaledDelay
                      (comb_prepare sampleRate maxCombDelay 0.7 5000 (combs p ! i)))
               [0..<numCombs],
             allpasses := map (\<lambda>i.
                 let scaledDelay = static_cast_int (real_of_int (allpassDelays ! i) * sampleRate / 48000)
                 in ap_setDelaySamples scaledDelay
                      (ap_prepare sampleRate maxAPDelay 0.5 (allpasses p ! i)))
               [0..<numAllpasses] \<rparr>)"

subsection \<open>The stages of processBlock\<close>

text \<open>Clear unused output channels: \<open>buffer.clear (i, 0, numSamples)\<close>.\<close>

definition clearUnused :: "nat \<Rightarrow> nat \<Rightarrow> nat \<Rightarrow> AudioBuffer \<Rightarrow> AudioBuffer" where
  "clearUnused nIn nOut numSamples buffer =
     fold (\<lambda>i b. b[i := replicate numSamples 0 @ drop numSamples (b ! i)]) [nIn..<nOut] buffer"

text \<open>Convert to mono.\<close>

definition downmix :: "nat \<Rightarrow> nat \<Rightarrow> AudioBuffer \<Rightarrow> real list" where
  "downmix nIn numSamples buffer =
     (let monoData = fvo_copy (replicate numSamples 0) (buffer ! 0) numSamples
      in if nIn > 1
         then fvo_multiply (fvo_add monoData (buffer ! 1) numSamples) 0.5 numSamples
         else monoData)"

text \<open>
  The hi-cut filter. Its memory \<open>prevSample\<close> is declared \<open>static\<close> inside
  \<open>processBlock\<close>: one variable for the whole program, initialised to 0 once, outside
  every processor object. The model passes it beside the processor state.
\<close>

definition hiCut_body :: "real \<Rightarrow> nat \<Rightarrow> real \<times> real list \<Rightarrow> real \<times> real list" where
  "hiCut_body cutoffGain i = (\<lambda>(prevSample, monoData).
     let prevSample' = prevSample + cutoffGain * (monoData ! i - prevSample)
     in (prevSample', monoData[i := prevSample']))"

definition hiCut :: "real \<Rightarrow> nat \<Rightarrow> real \<Rightarrow> real list \<Rightarrow> real \<times> real list" where
  "hiCut hiCutDb numSamples prevSample monoData =
     (if hiCutDb > 0.01
      then fold (hiCut_body (decibelsToGain (- hiCutDb))) [0..<numSamples] (prevSample, monoData)
      else (prevSample, monoData))"

text \<open>Pre-delay: read the old sample, write the current one, advance the write position.\<close>

definition preDelay_body ::
  "int \<Rightarrow> nat \<Rightarrow> real list \<times> nat \<times> real list \<Rightarrow> real list \<times> nat \<times> real list" where
  "preDelay_body pdSamples i = (\<lambda>(pdBuffer, writePos, monoData).
     let readPos0 = int writePos - pdSamples;
         readPos = (if readPos0 < 0 then readPos0 + int (length pdBuffer) else readPos0);
         delayed = pdBuffer ! nat readPos;
         pdBuffer' = pdBuffer[writePos := monoData ! i];
         monoData' = monoData[i := delayed];
         writePos' = (if writePos + 1 \<ge> length pdBuffer then 0 else writePos + 1)
     in (pdBuffer', writePos', monoData'))"

definition preDelay ::
  "real \<Rightarrow> nat \<Rightarrow> DdxReverbAudioProcessor \<Rightarrow> real list \<Rightarrow> DdxReverbAudioProcessor \<times> real list" where
  "preDelay predelayMs numSamples p monoData =
     (let pdSamples0 = static_cast_int (predelayMs * currentSampleRate p / 1000);
          pdSamples = jlimit 0 (int (length (preDelayBuffer p)) - 1) pdSamples0;
          p1 = p\<lparr> preDelaySamples := pdSamples \<rparr>
      in if pdSamples > 0
         then let (pdBuffer, writePos, monoData') =
                    fold (preDelay_body pdSamples) [0..<numSamples]
                         (preDelayBuffer p1, preDelayWritePos p1, monoData)
              in (p1\<lparr> preDelayBuffer := pdBuffer, preDelayWritePos := writePos \<rparr>, monoData')
         else (p1, monoData))"

text \<open>Update comb filter parameters.\<close>

definition avgDelayMs :: "real \<Rightarrow> real" where
  "avgDelayMs sampleRate =
     real_of_int (combDelays ! 0 + combDelays ! 1 + combDelays ! 2 + combDelays ! 3) / 4
       * 1000 / sampleRate"

definition combGainFor :: "real \<Rightarrow> real \<Rightarrow> real \<Rightarrow> real" where
  "combGainFor sampleRate decayTime bassMult =
     (let combGain0 = 10 powr (- 3 * avgDelayMs sampleRate / (decayTime * 1000));
          combGain1 = jlimit 0.1 0.99 combGain0
      in combGain1 * (1 + bassMult * 0.05))"

definition updateCombs :: "real \<Rightarrow> real \<Rightarrow> real \<Rightarrow> DdxReverbAudioProcessor \<Rightarrow> DdxReverbAudioProcessor" where
  "updateCombs dampingPct decayTime bassMult p =
     (let dampingFreq = jmap dampingPct 0 100 20000 2000;
          combGain = combGainFor (currentSampleRate p) decayTime bassMult
      in p\<lparr> combs := map (\<lambda>comb. comb_setGain combGain (comb_setDampingFreq dampingFreq comb))
                          (combs p) \<rparr>)"

text \<open>
  Process parallel combs. \<open>combBuffer\<close> is cleared before each comb; every comb reads
  its input from \<open>monoData\<close>, and \<open>monoData\<close> receives the comb's output (a copy for
  comb 0, an addition for the others) before the next comb runs.
\<close>

definition combStage_body ::
  "nat \<Rightarrow> bool \<Rightarrow> nat \<Rightarrow> nat \<Rightarrow> SharcCombFilter list \<times> real list \<Rightarrow> SharcCombFilter list \<times> real list" where
  "combStage_body simdWidth simdOn numSamples c = (\<lambda>(cs, monoData).
     let combOut0 = replicate numSamples 0;
         (comb', combOut) =
            (if simdOn then comb_processBlockSIMD simdWidth (cs ! c) monoData combOut0 numSamples
             else comb_processBlockScalar (cs ! c) monoData combOut0 numSamples);
         monoData' = (if c = 0 then fvo_copy monoData combOut numSamples
                      else fvo_add monoData combOut numSamples)
     in (cs[c := comb'], monoData'))"

definition combStage ::
  "nat \<Rightarrow> nat \<Rightarrow> DdxReverbAudioProcessor \<Rightarrow> real list \<Rightarrow> DdxReverbAudioProcessor \<times> real list" where
  "combStage simdWidth numSamples p monoData =
     (let (cs, monoData1) =
            fold (combStage_body simdWidth (useSIMD p) numSamples) [0..<numCombs] (combs p, monoData)
      in (p\<lparr> combs := cs \<rparr>, fvo_multiply monoData1 0.25 numSamples))"

text \<open>Process series all-passes, each in place on \<open>monoData\<close>.\<close>

definition allpassStage_body ::
  "nat \<Rightarrow> bool \<Rightarrow> nat \<Rightarrow> real \<Rightarrow> nat \<Rightarrow> SharcAllpassFilter list \<times> real list
     \<Rightarrow> SharcAllpassFilter list \<times> real list" where
  "allpassStage_body simdWidth simdOn numSamples g k = (\<lambda>(aps, monoData).
     let ap = ap_setGain g (aps ! k);
         (ap', monoData') =
            (if simdOn then ap_processBlockSIMD simdWidth ap monoData monoData numSamples
             else ap_processBlockScalar ap monoData monoData numSamples)
     in (aps[k := ap'], monoData'))"

definition allpassStage ::
  "nat \<Rightarrow> nat \<Rightarrow> real \<Rightarrow> DdxReverbAudioProcessor \<Rightarrow> real list \<Rightarrow> DdxReverbAudioProcessor \<times> real list" where
  "allpassStage simdWidth numSamples diffusionVal p monoData =
     (let g = jmap diffusionVal 0 20 0.3 0.7;
          (aps, monoData') =
            fold (allpassStage_body simdWidth (useSIMD p) numSamples g) [0..<numAllpasses]
                 (allpasses p, monoData)
      in (p\<lparr> allpasses := aps \<rparr>, monoData'))"

text \<open>Mix wet/dry, with the wet signal inverted on channel 1.\<close>

definition mix_body :: "real \<Rightarrow> nat \<Rightarrow> AudioBuffer \<Rightarrow> real list \<Rightarrow> nat \<Rightarrow> AudioBuffer \<Rightarrow> AudioBuffer" where
  "mix_body wetMix numSamples dry monoData channel buffer =
     (let outData0 = buffer ! channel;
          dryData = dry ! (min channel (length dry - 1));
          outData1 = fvo_copy outData0 dryData numSamples;
          outData2 = fvo_multiply outData1 (1 - wetMix) numSamples;
          outData3 = (if channel = 1
                      then fvo_addWithMultiply outData2 monoData (- wetMix) numSamples
                      else fvo_addWithMultiply outData2 monoData wetMix numSamples)
      in buffer[channel := outData3])"

definition mix :: "real \<Rightarrow> nat \<Rightarrow> nat \<Rightarrow> AudioBuffer \<Rightarrow> real list \<Rightarrow> AudioBuffer \<Rightarrow> AudioBuffer" where
  "mix wetMix numSamples nOut dry monoData buffer =
     fold (mix_body wetMix numSamples dry monoData) [0..<nOut] buffer"

subsection \<open>processBlock\<close>

text \<open>
  \<open>renderWet\<close> is the part of \<open>processBlock\<close> from the mono downmix to the end of the
  allpass chain: it returns the static hi-cut memory, the processor and the mono wet
  signal left in \<open>monoData\<close>.
\<close>

definition renderWet ::
  "nat \<Rightarrow> real \<Rightarrow> DdxReverbAudioProcessor \<Rightarrow> AudioBuffer \<Rightarrow> real \<times> DdxReverbAudioProcessor \<times> real list" where
  "renderWet simdWidth prevSample p buffer =
     (let nIn = totalNumInputChannels p;
          numSamples = getNumSamples buffer;
          prm = apvts p;
          p1 = p\<lparr> useSIMD := (simd prm > 0.5) \<rparr>;
          monoData0 = downmix nIn numSamples buffer;
          (prevSample', monoData1) = hiCut (hicut prm) numSamples prevSample monoData0;
          (p2, monoData2) = preDelay (predelay prm) numSamples p1 monoData1;
          p3 = updateCombs (damping prm) (decay prm) (bassmult prm) p2;
          (p4, monoData3) = combStage simdWidth numSamples p3 monoData2;
          (p5, monoData4) = allpassStage simdWidth numSamples (diffusion prm) p4 monoData3
      in (prevSample', p5, monoData4))"

text \<open>
  \<open>startTime\<close> and \<open>endTime\<close> are the two readings of the millisecond counter.
  The result is the static hi-cut memory, the processor and the buffer after the call.
\<close>

definition processBlock ::
  "nat \<Rightarrow> real \<Rightarrow> real \<Rightarrow> real \<Rightarrow> DdxReverbAudioProcessor \<Rightarrow> AudioBuffer
     \<Rightarrow> real \<times> DdxReverbAudioProcessor \<times> AudioBuffer" where
  "processBlock simdWidth startTime endTime prevSample p buffer0 =
     (let nIn = totalNumInputChannels p;
          nOut = totalNumOutputChannels p;
          numSamples = getNumSamples buffer0;
          buffer = clearUnused nIn nOut numSamples buffer0
      in if bypass (apvts p) > 0.5 then (prevSample, p, buffer)
         else
           let wetMix = wet (apvts p);
               dry = buffer;
               (prevSample', p5, monoData) = renderWet simdWidth prevSample p buffer;
               out = mix wetMix numSamples nOut dry monoData buffer;
               blockTime = (endTime - startTime) / 1000;
               expectedBlockTime = real numSamples / currentSampleRate p5
           in (prevSample', p5\<lparr> cpuUsage := blockTime / expectedBlockTime \<rparr>, out))"

text \<open>
  A host session: a list of blocks, each with the parameter values in force when it is
  processed, the two clock readings and the audio. The static hi-cut memory and the
  processor are threaded through.
\<close>

type_synonym block = "Params \<times> real \<times> real \<times> AudioBuffer"

fun runBlocks ::
  "nat \<Rightarrow> block list \<Rightarrow> real \<times> DdxReverbAudioProcessor \<Rightarrow> real \<times> DdxReverbAudioProcessor" where
  "runBlocks simdWidth [] sp = sp"
| "runBlocks simdWidth ((prm, startTime, endTime, buffer) # bs) (prevSample, p) =
     (let (prevSample', p', out) =
            processBlock simdWidth startTime endTime prevSample (p\<lparr> apvts := prm \<rparr>) buffer
      in runBlocks simdWidth bs (prevSample', p'))"

text \<open>Every channel of a \<open>juce::AudioBuffer\<close> has the buffer's number of samples.\<close>

definition rectangular :: "AudioBuffer \<Rightarrow> bool" where
  "rectangular buffer = (\<forall>ch \<in> set buffer. length ch = getNumSamples buffer)"

section \<open>Reference definitions\<close>

text \<open>
  The definitions of this section are not translations of the source. They write down
  what the specification says a stage computes, to be compared with the code above.
\<close>

text \<open>
  The comb filter, one sample at a time, on the triple of delay line, cursor and damping
  memory: read the delayed sample at the cursor, update the damping memory, form the
  new sample from the input and the damped feedback, write it at the cursor, output it,
  and advance the cursor by one modulo the active length \<open>M\<close>.
\<close>

definition spec_comb_sample ::
  "real \<Rightarrow> real \<Rightarrow> nat \<Rightarrow> real list \<times> nat \<times> real \<Rightarrow> real
     \<Rightarrow> (real list \<times> nat \<times> real) \<times> real" where
  "spec_comb_sample g d M = (\<lambda>(line, cursor, flt) x.
     let delayed = line ! cursor;
         flt' = delayed + d * (flt - delayed);
         newSample = x + g * flt'
     in ((line[cursor := newSample], (cursor + 1) mod M, flt'), newSample))"

fun spec_comb_run ::
  "real \<Rightarrow> real \<Rightarrow> nat \<Rightarrow> real list \<times> nat \<times> real \<Rightarrow> real list
     \<Rightarrow> (real list \<times> nat \<times> real) \<times> real list" where
  "spec_comb_run g d M s [] = (s, [])"
| "spec_comb_run g d M s (x # xs) =
     (let (s', y) = spec_comb_sample g d M s x;
          (s'', ys) = spec_comb_run g d M s' xs
      in (s'', y # ys))"

text \<open>
  The allpass filter, one sample at a time, on the pair of delay line and cursor: read
  the delayed sample at the cursor, output \<open>- g * input + delayed\<close>, write
  \<open>input + g * delayed\<close> at the cursor, advance the cursor by one modulo \<open>M\<close>.
\<close>

definition spec_allpass_sample ::
  "real \<Rightarrow> nat \<Rightarrow> real list \<times> nat \<Rightarrow> real \<Rightarrow> (real list \<times> nat) \<times> real" where
  "spec_allpass_sample g M = (\<lambda>(line, cursor) x.
     let delayed = line ! cursor;
         out = - g * x + delayed
     in ((line[cursor := x + g * delayed], (cursor + 1) mod M), out))"

fun spec_allpass_run ::
  "real \<Rightarrow> nat \<Rightarrow> real list \<times> nat \<Rightarrow> real list \<Rightarrow> (real list \<times> nat) \<times> real list" where
  "spec_allpass_run g M s [] = (s, [])"
| "spec_allpass_run g M s (x # xs) =
     (let (s', y) = spec_allpass_sample g M s x;
          (s'', ys) = spec_allpass_run g M s' xs
      in (s'', y # ys))"

text \<open>
  The comb bank as a parallel bank: every comb filters the same input block, the
  output blocks are added sample by sample, and the sum is scaled by 0.25.
\<close>

definition spec_combBank :: "SharcCombFilter list \<Rightarrow> real list \<Rightarrow> real list" where
  "spec_combBank cs x =
     (let n = length x;
          outs = map (\<lambda>c. snd (comb_processBlockScalar c x (replicate n 0) n)) cs;
          total = fold (\<lambda>out acc. map2 (\<lambda>a b. a + b) acc out) outs (replicate n 0)
      in map (\<lambda>s. s * 0.25) total)"

text \<open>
  The Schroeder allpass recurrence \<open>y[n] = - g * x[n] + x[n - M] + g * y[n - M]\<close> on a
  block, with silence before the block (\<open>x[k] = y[k] = 0\<close> for \<open>k < 0\<close>).
\<close>

definition spec_schroeder :: "real \<Rightarrow> nat \<Rightarrow> real list \<Rightarrow> real list" where
  "spec_schroeder g M x =
     fold (\<lambda>n y. y @ [- g * x ! n + (if M \<le> n then x ! (n - M) + g * y ! (n - M) else 0)])
          [0..<length x] []"

text \<open>
  The bank-average comb delay time in milliseconds: the mean of the active delay lengths
  of the combs, in samples, converted to milliseconds with the current sample rate. The
  comb gain the specification derives from it: \<open>10\<close> to the power
  \<open>- 3 * delayMs / (decayTime * 1000)\<close>, clamped into [0.1, 0.99], times
  \<open>1 + bassMult * 0.05\<close>, clamped into [0, 0.99].
\<close>

definition spec_avgDelayMs :: "DdxReverbAudioProcessor \<Rightarrow> real" where
  "spec_avgDelayMs p =
     sum_list (map (\<lambda>c. real (delaySamples c)) (combs p)) / real (length (combs p))
       * 1000 / currentSampleRate p"

definition spec_combGain :: "DdxReverbAudioProcessor \<Rightarrow> real" where
  "spec_combGain p =
     jlimit 0 0.99
       (jlimit 0.1 0.99 (10 powr (- 3 * spec_avgDelayMs p / (decay (apvts p) * 1000)))
          * (1 + bassmult (apvts p) * 0.05))"

section \<open>Traces of the loops\<close>

text \<open>
  Names for values inside the loops of the source, used to state what the loops compute:
  the damping memory after \<open>j\<close> steps over the delayed samples \<open>d 0, d 1, \<dots>\<close>; the
  sample the scalar allpass loop reads from its delay line at step \<open>n\<close>; and the sample it
  outputs there.
\<close>

primrec damp_chain :: "real \<Rightarrow> (nat \<Rightarrow> real) \<Rightarrow> real \<Rightarrow> nat \<Rightarrow> real" where
  "damp_chain damp d flt 0 = flt"
| "damp_chain damp d flt (Suc j) = d j + damp * (damp_chain damp d flt j - d j)"

definition ap_delayed :: "real \<Rightarrow> nat \<Rightarrow> real list \<Rightarrow> real list \<Rightarrow> nat \<Rightarrow> nat \<Rightarrow> real" where
  "ap_delayed g len input B idx n =
     (let (B', c', outp') = fold (ap_scalar_body g len input) [0..<n] (B, idx, [])
      in B' ! c')"

definition ap_out :: "real \<Rightarrow> nat \<Rightarrow> real list \<Rightarrow> real list \<Rightarrow> nat \<Rightarrow> nat \<Rightarrow> real" where
  "ap_out g len input B idx n = - g * input ! n + ap_delayed g len input B idx n"

section \<open>Concrete filters and processors\<close>

text \<open>A comb filter prepared with a three-sample line, then set to gain 1/2.\<close>

definition comb3 :: SharcCombFilter where
  "comb3 = comb_setGain 0.5 (comb_prepare 48000 3 0.7 5000 comb_default)"

text \<open>
  A processor prepared at 48 kHz with blocks of up to 512 samples; the same with the
  pre-delay parameter at 0 ms, so that the input reaches the combs within the block; and
  a bypassed one on a mono-in, stereo-out layout.
\<close>

definition prepared48k :: DdxReverbAudioProcessor where
  "prepared48k = prepareToPlay 48000 512 constructed"

text \<open>A processor prepared at 96 kHz, with the default parameters.\<close>

definition prepared96k :: DdxReverbAudioProcessor where
  "prepared96k = prepareToPlay 96000 512 constructed"

definition noPreDelay48k :: DdxReverbAudioProcessor where
  "noPreDelay48k = prepared48k\<lparr> apvts := defaultParams\<lparr> predelay := 0 \<rparr> \<rparr>"

definition bypassedMonoIn :: DdxReverbAudioProcessor where
  "bypassedMonoIn = prepared48k\<lparr> apvts := defaultParams\<lparr> bypass := 1 \<rparr>,
                                totalNumInputChannels := 1 \<rparr>"

definition bypassedBlocks :: "block list" where
  "bypassedBlocks = [(defaultParams\<lparr> bypass := 1 \<rparr>, 1, 2, [[1], [1]]),
                     (defaultParams\<lparr> bypass := 1 \<rparr>, 2, 4, [[2], [2]])]"

text \<open>
  Two processors with the hi-cut filter on (20 dB), no pre-delay and a fully wet mix,
  prepared at 48 kHz and at 44.1 kHz; a processor prepared at 4 kHz, where the scaled
  delay of allpass 6 is 3 samples; and a unit impulse of 38 samples, one more than the
  delay of allpass 6 at 48 kHz.
\<close>

definition hiCut48k :: DdxReverbAudioProcessor where
  "hiCut48k = prepared48k\<lparr> apvts := defaultParams\<lparr> predelay := 0, hicut := 20, wet := 1 \<rparr> \<rparr>"

definition hiCut44k :: DdxReverbAudioProcessor where
  "hiCut44k = (prepareToPlay 44100 256 constructed)
                 \<lparr> apvts := defaultParams\<lparr> predelay := 0, hicut := 20, wet := 1 \<rparr> \<rparr>"

definition lowRate :: DdxReverbAudioProcessor where
  "lowRate = prepareToPlay 4000 512 constructed"

definition shortComb :: SharcCombFilter where
  "shortComb = comb_setDelaySamples 1 (comb_prepare 48000 4800 0.7 5000 comb_default)"

definition impulse38 :: "real list" where
  "impulse38 = [1, 0, 0, 0, 0, 0, 0, 0, 0, 0,  0, 0, 0, 0, 0, 0, 0, 0, 0, 0,
                0, 0, 0, 0, 0, 0, 0, 0, 0, 0,  0, 0, 0, 0, 0, 0, 0, 0]"

section \<open>Evaluation and basic facts\<close>

text \<open>
  Rewrite rules for running the model on concrete blocks. Index ranges are unfolded
  only when their upper bound is a numeral, and \<open>jlimit\<close> only on integers, so that a
  gain that depends on \<open>powr\<close> or \<open>exp\<close> stays a closed term.
\<close>

lemma jlimit_int: "jlimit (lo :: int) hi v = (if v < lo then lo else if hi < v then hi else v)"
  by (rule jlimit_def)

lemma upt_0_numeral: "[0..<numeral n] = 0 # [Suc 0..<numeral n]"
  by (simp add: upt_rec [of 0])

lemma upt_Suc_numeral:
  "[Suc 0..<numeral n] = (if Suc 0 < numeral n then Suc 0 # [2..<numeral n] else [])"
  by (simp add: upt_rec [of "Suc 0"] numeral_2_eq_2)

lemmas filter_defs =
  jlimit_int comb_default_def comb_prepare_def comb_setDelaySamples_def comb_setGain_def
  comb_setDampingFreq_def ap_default_def ap_prepare_def ap_setDelaySamples_def ap_setGain_def

lemmas processor_defs =
  defaultParams_def getNumSamples_def numCombs_def numAllpasses_def combDelays_def
  allpassDelays_def constructed_def getCpuUsage_def prepareToPlay_def static_cast_int_def
  prepared48k_def noPreDelay48k_def bypassedMonoIn_def

lemmas stage_defs =
  jmap_def decibelsToGain_def fvo_copy_def fvo_add_def fvo_multiply_def fvo_addWithMultiply_def
  comb_scalar_body_def comb_processBlockScalar_def ap_scalar_body_def ap_processBlockScalar_def
  clearUnused_def downmix_def hiCut_body_def hiCut_def preDelay_body_def preDelay_def
  updateCombs_def combStage_body_def combStage_def allpassStage_body_def allpassStage_def
  renderWet_def Let_def upt_0_numeral upt_Suc_numeral

lemmas simd_defs =
  comb_simd_body_def comb_processBlockSIMD_def ap_simd_body_def ap_processBlockSIMD_def

lemmas mix_defs = processBlock_def mix_def mix_body_def

lemmas concrete_defs = hiCut48k_def hiCut44k_def lowRate_def shortComb_def impulse38_def

lemma list_of_two: "length xs = 2 \<Longrightarrow> xs ! 0 = a \<Longrightarrow> xs ! 1 = b \<Longrightarrow> xs = [a, b]"
  by (cases xs; cases "tl xs") auto

lemma list_of_one: "length xs = 1 \<Longrightarrow> xs ! 0 = a \<Longrightarrow> xs = [a]"
  by (cases xs) auto

lemma map_const_replicate:
  "length xs = n \<Longrightarrow> \<forall>x \<in> set xs. f x = v \<Longrightarrow> map f xs = replicate n v"
  by (induction xs arbitrary: n) auto

lemma take_Suc_update: "k < length xs \<Longrightarrow> take (Suc k) (xs[k := v]) = take k xs @ [v]"
  by (simp add: take_Suc_conv_app_nth)

section \<open>The comb filter, sample by sample\<close>

lemma comb_scalar_fold_spec:
  "n = length input - k \<Longrightarrow> k \<le> length input \<Longrightarrow> length outp = length input \<Longrightarrow> idx < M \<Longrightarrow>
   fold (comb_scalar_body g d M input) [k..<length input] (buffer, idx, flt, outp) =
     (let ((line, cursor, f), ys) = spec_comb_run g d M (buffer, idx, flt) (drop k input)
      in (line, cursor, f, take k outp @ ys))"
proof (induction n arbitrary: k buffer idx flt outp)
  case 0
  then show ?case by simp
next
  case (Suc n)
  then have klt: "k < length input" by simp
  let ?delayed = "buffer ! idx"
  let ?flt = "?delayed + d * (flt - ?delayed)"
  let ?new = "input ! k + g * ?flt"
  let ?idx = "(idx + 1) mod M"
  have body: "comb_scalar_body g d M input k (buffer, idx, flt, outp)
                = (buffer[idx := ?new], ?idx, ?flt, outp[k := ?new])"
    using Suc.prems(4) by (auto simp: comb_scalar_body_def Let_def mod_Suc)
  have samp: "spec_comb_sample g d M (buffer, idx, flt) (input ! k)
                = ((buffer[idx := ?new], ?idx, ?flt), ?new)"
    by (simp add: spec_comb_sample_def Let_def)
  have idx': "?idx < M" using Suc.prems(4) by simp
  obtain line cursor f ys where
    run: "spec_comb_run g d M (buffer[idx := ?new], ?idx, ?flt) (drop (Suc k) input)
            = ((line, cursor, f), ys)"
    by (cases "spec_comb_run g d M (buffer[idx := ?new], ?idx, ?flt) (drop (Suc k) input)") auto
  have "fold (comb_scalar_body g d M input) [Suc k..<length input]
               (buffer[idx := ?new], ?idx, ?flt, outp[k := ?new]) =
            (let ((line, cursor, f), ys) =
                   spec_comb_run g d M (buffer[idx := ?new], ?idx, ?flt) (drop (Suc k) input)
             in (line, cursor, f, take (Suc k) (outp[k := ?new]) @ ys))"
    using Suc.prems klt idx' by (intro Suc.IH) auto
  then have IH: "fold (comb_scalar_body g d M input) [Suc k..<length input]
               (buffer[idx := ?new], ?idx, ?flt, outp[k := ?new]) =
               (line, cursor, f, take k outp @ ?new # ys)"
    using klt Suc.prems(3) by (simp only: run take_Suc_update) simp
  have dr: "drop k input = input ! k # drop (Suc k) input"
    using klt by (simp add: Cons_nth_drop_Suc)
  have lhs: "fold (comb_scalar_body g d M input) [k..<length input] (buffer, idx, flt, outp)
              = (line, cursor, f, take k outp @ ?new # ys)"
    using klt by (simp only: upt_conv_Cons fold_simps body IH)
  have rhs: "spec_comb_run g d M (buffer, idx, flt) (drop k input) = ((line, cursor, f), ?new # ys)"
    by (simp only: dr spec_comb_run.simps samp run Let_def prod.case)
  show ?case
    by (simp only: lhs rhs Let_def prod.case)
qed

text \<open>
  Claim C8. For a prepared comb filter whose cursor lies inside the active part of its
  delay line (the state every filter of the processor is in, see the section on the
  cursor below), the scalar block routine processes the input one sample after the other by
  the rule of \<open>spec_comb_sample\<close>: the delayed sample is read at the cursor before the
  write, the damping memory becomes \<open>delayed + d * (flt - delayed)\<close>, the sample
  \<open>input + g * flt\<close> is both stored at the cursor and output, and the cursor advances by
  one, wrapping to 0 at the active delay length. The output block is the list of these
  samples, and the filter is left with the final line, cursor and damping memory.
\<close>

theorem comb_processBlockScalar_per_sample:
  assumes "prepared c"
    and "writeIndex c < delaySamples c"
    and "delaySamples c \<le> length (delayLine c)"
    and "length input = numSamples"
    and "length outp = numSamples"
  shows "comb_processBlockScalar c input outp numSamples =
           (let ((line, cursor, flt), ys) =
                  spec_comb_run (feedbackGain c) (dampingCoeff c) (delaySamples c)
                    (delayLine c, writeIndex c, filterState c) input
            in (c\<lparr> delayLine := line, writeIndex := cursor, filterState := flt \<rparr>, ys))"
proof -
  have "fold (comb_scalar_body (feedbackGain c) (dampingCoeff c) (delaySamples c) input)
          [0..<length input] (delayLine c, writeIndex c, filterState c, outp) =
        (let ((line, cursor, f), ys) =
               spec_comb_run (feedbackGain c) (dampingCoeff c) (delaySamples c)
                 (delayLine c, writeIndex c, filterState c) (drop 0 input)
         in (line, cursor, f, take 0 outp @ ys))"
    using assms by (intro comb_scalar_fold_spec) auto
  then show ?thesis
    using assms(1,4) by (simp add: comb_processBlockScalar_def split: prod.splits)
qed

theorem comb_processBlockScalar_per_sample_witness:
  "prepared comb3 \<and> writeIndex comb3 < delaySamples comb3
   \<and> delaySamples comb3 \<le> length (delayLine comb3)
   \<and> length [1, 0, 0, 2 :: real] = 4 \<and> length [0, 0, 0, 0 :: real] = 4
   \<and> snd (comb_processBlockScalar comb3 [1, 0, 0, 2] [0, 0, 0, 0] 4)
       = [1, 0, 0, 2 + (1 - exp (- (5 * pi / 24))) / 2]"
proof -
  have h1: "prepared comb3"
    and h2: "writeIndex comb3 < delaySamples comb3"
    and h3: "delaySamples comb3 \<le> length (delayLine comb3)"
    by (simp_all add: comb3_def filter_defs jlimit_def)
  have h4: "length [1, 0, 0, 2 :: real] = 4" and h5: "length [0, 0, 0, 0 :: real] = 4"
    by simp_all
  show ?thesis
    using h1 h2 h3 comb_processBlockScalar_per_sample [OF h1 h2 h3 h4 h5]
    by (simp add: comb3_def filter_defs jlimit_def spec_comb_sample_def Let_def)
qed

section \<open>Bypass\<close>

lemma length_clearUnused [simp]: "length (clearUnused nIn nOut n buffer) = length buffer"
  by (induction nOut) (auto simp: clearUnused_def)

lemma nth_clearUnused:
  "c < length buffer \<Longrightarrow>
   clearUnused nIn nOut n buffer ! c =
     (if nIn \<le> c \<and> c < nOut then replicate n 0 @ drop n (buffer ! c) else buffer ! c)"
proof (induction nOut)
  case 0
  then show ?case by (simp add: clearUnused_def)
next
  case (Suc nOut)
  show ?case
  proof (cases "nIn \<le> nOut")
    case True
    have step: "clearUnused nIn (Suc nOut) n buffer =
            (clearUnused nIn nOut n buffer)
              [nOut := replicate n 0 @ drop n (clearUnused nIn nOut n buffer ! nOut)]"
      using True by (simp add: clearUnused_def)
    show ?thesis
    proof (cases "c = nOut")
      case True
      then show ?thesis using Suc \<open>nIn \<le> nOut\<close> by (simp add: step)
    next
      case False
      then show ?thesis using Suc by (auto simp: step)
    qed
  next
    case False
    then have "clearUnused nIn (Suc nOut) n buffer = buffer"
      by (simp add: clearUnused_def)
    moreover have "\<not> (nIn \<le> c \<and> c < Suc nOut)" using False by arith
    ultimately show ?thesis by auto
  qed
qed

text \<open>
  Claim C3. When the bypass parameter is on, \<open>processBlock\<close> returns the block with
  every input channel exactly as it came in and every output channel beyond the input
  channel count filled with zeros, and it changes nothing else: the processor (pre-delay
  buffer and write position, every comb and allpass delay line, cursor and filter
  memory) and the static hi-cut memory are returned as they were passed in.
\<close>

theorem bypass_identity:
  assumes "bypass (apvts p) > 0.5" and "rectangular buffer"
  shows "\<exists>out. processBlock simdWidth startTime endTime prevSample p buffer = (prevSample, p, out)
           \<and> length out = length buffer
           \<and> (\<forall>c < length buffer. c < totalNumInputChannels p \<longrightarrow> out ! c = buffer ! c)
           \<and> (\<forall>c < length buffer.
                 totalNumInputChannels p \<le> c \<and> c < totalNumOutputChannels p
                 \<longrightarrow> out ! c = replicate (getNumSamples buffer) 0)"
  using assms by (auto simp: processBlock_def Let_def nth_clearUnused rectangular_def)

theorem bypass_identity_witness:
  "bypass (apvts bypassedMonoIn) > 0.5 \<and> rectangular [[1, 2], [3, 4]]
   \<and> processBlock 4 0 1 0 bypassedMonoIn [[1, 2], [3, 4]] = (0, bypassedMonoIn, [[1, 2], [0, 0]])"
proof -
  have h1: "bypass (apvts bypassedMonoIn) > 0.5"
    by (simp add: bypassedMonoIn_def)
  have h2: "rectangular [[1, 2], [3, 4]]"
    by (simp add: rectangular_def getNumSamples_def)
  obtain out where pb: "processBlock 4 0 1 0 bypassedMonoIn [[1, 2], [3, 4]] = (0, bypassedMonoIn, out)"
    and len: "length out = 2"
    and ins: "\<forall>c<2. c < totalNumInputChannels bypassedMonoIn \<longrightarrow> out ! c = [[1, 2], [3, 4]] ! c"
    and outs: "\<forall>c<2. totalNumInputChannels bypassedMonoIn \<le> c
                       \<and> c < totalNumOutputChannels bypassedMonoIn
                 \<longrightarrow> out ! c = replicate (getNumSamples [[1, 2], [3, 4]]) 0"
    using bypass_identity [OF h1 h2, of 4 0 1 0] by auto
  have "out ! 0 = [1, 2]"
    using ins by (simp add: bypassedMonoIn_def)
  moreover have "out ! 1 = [0, 0]"
    using outs by (simp add: processor_defs numeral_2_eq_2)
  ultimately have "out = [[1, 2], [0, 0]]"
    by (rule list_of_two [OF len])
  then show ?thesis using h1 h2 pb by simp
qed

section \<open>CPU usage under bypass\<close>

lemma processBlock_bypass_cpu:
  "bypass (apvts p) > 0.5 \<Longrightarrow>
   cpuUsage (fst (snd (processBlock simdWidth startTime endTime prevSample p buffer))) = cpuUsage p"
  by (simp add: processBlock_def Let_def)

text \<open>
  Claim C10. A bypassed block returns before the CPU-usage measurement is stored, so
  after any run of bypassed blocks \<open>getCpuUsage\<close> gives what it gave before the run:
  the value stored by the last block that was not bypassed, or 0, the value of a newly
  constructed processor, if there has been none.
\<close>

theorem bypass_keeps_cpuUsage:
  assumes "\<forall>b \<in> set blocks. bypass (fst b) > 0.5"
  shows "getCpuUsage (snd (runBlocks simdWidth blocks (prevSample, p))) = getCpuUsage p
         \<and> getCpuUsage constructed = 0"
  using assms
proof (induction blocks arbitrary: prevSample p)
  case Nil
  then show ?case by (simp add: getCpuUsage_def constructed_def)
next
  case (Cons b blocks)
  obtain prm startTime endTime buffer where b: "b = (prm, startTime, endTime, buffer)"
    by (cases b) auto
  have byp: "bypass (apvts (p\<lparr> apvts := prm \<rparr>)) > 0.5" using Cons.prems b by simp
  obtain s' p' out where pb:
    "processBlock simdWidth startTime endTime prevSample (p\<lparr> apvts := prm \<rparr>) buffer = (s', p', out)"
    by (cases "processBlock simdWidth startTime endTime prevSample (p\<lparr> apvts := prm \<rparr>) buffer") auto
  have "cpuUsage p' = cpuUsage p"
    using processBlock_bypass_cpu [OF byp, of simdWidth startTime endTime prevSample buffer] pb by simp
  moreover have "getCpuUsage (snd (runBlocks simdWidth blocks (s', p'))) = getCpuUsage p'
                 \<and> getCpuUsage constructed = 0"
    using Cons.prems by (intro Cons.IH) simp
  ultimately show ?case
    by (simp add: b pb getCpuUsage_def)
qed

theorem bypass_keeps_cpuUsage_witness:
  "map (\<lambda>b. bypass (fst b) > 0.5) bypassedBlocks = [True, True]
   \<and> getCpuUsage (fst (snd (processBlock 4 0 1 0 noPreDelay48k [[1], [1]]))) = 48
   \<and> getCpuUsage (snd (runBlocks 4 bypassedBlocks
         (0, fst (snd (processBlock 4 0 1 0 noPreDelay48k [[1], [1]]))))) = 48"
proof -
  have h: "\<forall>b \<in> set bypassedBlocks. bypass (fst b) > 0.5"
    and h': "map (\<lambda>b. bypass (fst b) > 0.5) bypassedBlocks = [True, True]"
    by (simp_all add: bypassedBlocks_def)
  have c: "getCpuUsage (fst (snd (processBlock 4 0 1 0 noPreDelay48k [[1], [1]]))) = 48"
    by (simp add: processBlock_def processor_defs filter_defs stage_defs)
  show ?thesis
    using h' c bypass_keeps_cpuUsage [OF h, of 4 0 "fst (snd (processBlock 4 0 1 0 noPreDelay48k [[1], [1]]))"]
    by simp
qed

section \<open>Lengths of the working arrays\<close>

lemma fold_invariant:
  "(\<And>x s. x \<in> set xs \<Longrightarrow> P s \<Longrightarrow> P (f x s)) \<Longrightarrow> P s \<Longrightarrow> P (fold f xs s)"
  by (induction xs arbitrary: s) auto

lemma length_fold_update [simp]:
  "length (fold (\<lambda>j xs. xs[f j := g j]) js xs) = length xs"
  by (induction js arbitrary: xs) auto

lemma length_fvo_copy [simp]:
  "length dest = n \<Longrightarrow> n \<le> length src \<Longrightarrow> length (fvo_copy dest src n) = n"
  by (simp add: fvo_copy_def)

lemma length_fvo_add [simp]:
  "length dest = n \<Longrightarrow> n \<le> length src \<Longrightarrow> length (fvo_add dest src n) = n"
  by (simp add: fvo_add_def)

lemma length_fvo_multiply [simp]:
  "length dest = n \<Longrightarrow> length (fvo_multiply dest k n) = n"
  by (simp add: fvo_multiply_def)

lemma length_fvo_addWithMultiply [simp]:
  "length dest = n \<Longrightarrow> n \<le> length src \<Longrightarrow> length (fvo_addWithMultiply dest src k n) = n"
  by (simp add: fvo_addWithMultiply_def)

lemma comb_scalar_fold_length:
  "length (snd (snd (snd (fold (comb_scalar_body g d M input) js st)))) = length (snd (snd (snd st)))"
  by (rule fold_invariant [where P = "\<lambda>s. length (snd (snd (snd s))) = length (snd (snd (snd st)))"])
     (auto simp: comb_scalar_body_def Let_def split: prod.splits)

lemma comb_simd_fold_length:
  "length (snd (snd (snd (fold (comb_simd_body W g d M input) js st)))) = length (snd (snd (snd st)))"
  by (rule fold_invariant [where P = "\<lambda>s. length (snd (snd (snd s))) = length (snd (snd (snd st)))"])
     (auto simp: comb_simd_body_def Let_def split: prod.splits)

lemma length_comb_processBlockScalar [simp]:
  "length (snd (comb_processBlockScalar c input outp n)) = length outp"
  by (simp add: comb_processBlockScalar_def Let_def case_prod_beta comb_scalar_fold_length)

lemma length_comb_processBlockSIMD [simp]:
  "length (snd (comb_processBlockSIMD W c input outp n)) = length outp"
  by (simp add: comb_processBlockSIMD_def Let_def case_prod_beta comb_scalar_fold_length
      comb_simd_fold_length)

lemma ap_scalar_fold_length:
  "length (snd (snd (fold (ap_scalar_body g M input) js st))) = length (snd (snd st))"
  by (rule fold_invariant [where P = "\<lambda>s. length (snd (snd s)) = length (snd (snd st))"])
     (auto simp: ap_scalar_body_def Let_def split: prod.splits)

lemma ap_simd_fold_length:
  "length (snd (snd (fold (ap_simd_body W g M input) js st))) = length (snd (snd st))"
  by (rule fold_invariant [where P = "\<lambda>s. length (snd (snd s)) = length (snd (snd st))"])
     (auto simp: ap_simd_body_def Let_def split: prod.splits)

lemma length_ap_processBlockScalar [simp]:
  "length (snd (ap_processBlockScalar a input outp n)) = length outp"
  by (simp add: ap_processBlockScalar_def Let_def case_prod_beta ap_scalar_fold_length)

lemma length_ap_processBlockSIMD [simp]:
  "length (snd (ap_processBlockSIMD W a input outp n)) = length outp"
  by (simp add: ap_processBlockSIMD_def Let_def case_prod_beta ap_scalar_fold_length
      ap_simd_fold_length)

lemma length_hiCut [simp]:
  "length (snd (hiCut hiCutDb n prevSample monoData)) = length monoData"
proof -
  have "length (snd (fold (hiCut_body k) js st)) = length (snd st)" for k js st
    by (rule fold_invariant [where P = "\<lambda>s. length (snd s) = length (snd st)"])
       (auto simp: hiCut_body_def Let_def split: prod.splits)
  then show ?thesis by (simp add: hiCut_def)
qed

lemma length_preDelay [simp]:
  "length (snd (preDelay predelayMs n p monoData)) = length monoData"
proof -
  have "length (snd (snd (fold (preDelay_body k) js st))) = length (snd (snd st))" for k js st
    by (rule fold_invariant [where P = "\<lambda>s. length (snd (snd s)) = length (snd (snd st))"])
       (auto simp: preDelay_body_def Let_def split: prod.splits)
  then show ?thesis by (simp add: preDelay_def Let_def case_prod_beta)
qed

lemma length_combStage [simp]:
  assumes "length monoData = n"
  shows "length (snd (combStage W n p monoData)) = n"
proof -
  have "length (snd (fold (combStage_body W b n) js st)) = n" if "length (snd st) = n" for b js st
    using that
    by (rule fold_invariant [where P = "\<lambda>s. length (snd s) = n", rotated])
       (auto simp: combStage_body_def Let_def case_prod_beta)
  then show ?thesis using assms by (simp add: combStage_def Let_def case_prod_beta)
qed

lemma length_allpassStage [simp]:
  "length (snd (allpassStage W n dv p monoData)) = length monoData"
proof -
  have "length (snd (fold (allpassStage_body W b n g) js st)) = length (snd st)" for b g js st
    by (rule fold_invariant [where P = "\<lambda>s. length (snd s) = length (snd st)"])
       (auto simp: allpassStage_body_def Let_def case_prod_beta)
  then show ?thesis by (simp add: allpassStage_def Let_def case_prod_beta)
qed

lemma length_downmix [simp]:
  assumes "n \<le> length (buffer ! 0)" and "nIn > 1 \<longrightarrow> n \<le> length (buffer ! 1)"
  shows "length (downmix nIn n buffer) = n"
  using assms by (simp add: downmix_def Let_def)

lemma length_renderWet:
  assumes "rectangular buffer" and "length buffer = 2"
  shows "length (snd (snd (renderWet W s p buffer))) = getNumSamples buffer"
proof -
  have "buffer ! 0 \<in> set buffer" "buffer ! 1 \<in> set buffer"
    using assms(2) by simp_all
  then have "length (buffer ! 0) = getNumSamples buffer" "length (buffer ! 1) = getNumSamples buffer"
    using assms(1) by (simp_all add: rectangular_def)
  then show ?thesis
    by (simp add: renderWet_def Let_def case_prod_beta)
qed

section \<open>The wet/dry mixer\<close>

lemma length_mix [simp]: "length (mix w n nOut dry monoData buffer) = length buffer"
  by (induction nOut) (auto simp: mix_def mix_body_def Let_def)

lemma nth_mix:
  "c < length buffer \<Longrightarrow>
   mix w n nOut dry monoData buffer ! c =
     (if c < nOut
      then fvo_addWithMultiply
             (fvo_multiply (fvo_copy (buffer ! c) (dry ! (min c (length dry - 1))) n) (1 - w) n)
             monoData (if c = 1 then - w else w) n
      else buffer ! c)"
proof (induction nOut)
  case 0
  then show ?case by (simp add: mix_def)
next
  case (Suc nOut)
  have step: "mix w n (Suc nOut) dry monoData buffer =
                mix_body w n dry monoData nOut (mix w n nOut dry monoData buffer)"
    by (simp add: mix_def)
  show ?case
  proof (cases "c = nOut")
    case True
    then show ?thesis
      using Suc by (simp add: step mix_body_def Let_def)
  next
    case False
    then show ?thesis
      using Suc by (auto simp: step mix_body_def Let_def)
  qed
qed

lemma nth_mixed_sample:
  assumes "i < n" and "length b = n" and "length d = n" and "length m = n"
  shows "fvo_addWithMultiply (fvo_multiply (fvo_copy b d n) k1 n) m k2 n ! i = d ! i * k1 + m ! i * k2"
  using assms
  by (simp add: fvo_addWithMultiply_def fvo_multiply_def fvo_copy_def nth_append)

lemma length_mixed_channel:
  assumes "length b = n" and "length d = n" and "length m = n"
  shows "length (fvo_addWithMultiply (fvo_multiply (fvo_copy b d n) k1 n) m k2 n) = n"
  using assms by simp

lemma rectangular_clearUnused:
  assumes "rectangular buffer" and "c < length buffer"
  shows "length (clearUnused nIn nOut (getNumSamples buffer) buffer ! c) = getNumSamples buffer"
  using assms by (simp add: nth_clearUnused rectangular_def)

lemma getNumSamples_nth0: "buffer \<noteq> [] \<Longrightarrow> getNumSamples buffer = length (buffer ! 0)"
  by (cases buffer) (simp_all add: getNumSamples_def)

text \<open>
  Claim C4. With bypass off, on the stereo output layout, every sample of output channel
  0 is \<open>dry * (1 - wetMix) + wet * wetMix\<close> and every sample of output channel 1 is
  \<open>dry * (1 - wetMix) - wet * wetMix\<close>, where \<open>dry\<close> is the block as it entered (after
  the unused output channels were cleared) and \<open>wet\<close> is the one mono signal that the
  chain from downmix to allpasses leaves behind, the same for both channels. For
  \<open>wetMix = 0\<close> the output is the dry block; for \<open>wetMix = 1\<close> and a silent dry block
  channel 1 is the negation of channel 0. The statement holds for every value of
  \<open>wetMix\<close>, in particular for those in [0, 1].
\<close>

theorem wet_dry_mix:
  assumes "\<not> bypass (apvts p) > 0.5"
    and "rectangular buffer" and "length buffer = 2"
    and "totalNumOutputChannels p = 2"
    and "n = getNumSamples buffer"
    and "w = wet (apvts p)"
    and "dry = clearUnused (totalNumInputChannels p) 2 n buffer"
    and "wetSig = snd (snd (renderWet simdWidth prevSample p dry))"
    and "out = snd (snd (processBlock simdWidth startTime endTime prevSample p buffer))"
  shows "length wetSig = n \<and> length out = 2 \<and> length (out ! 0) = n \<and> length (out ! 1) = n
         \<and> (\<forall>i<n. out ! 0 ! i = dry ! 0 ! i * (1 - w) + wetSig ! i * w
                  \<and> out ! 1 ! i = dry ! 1 ! i * (1 - w) - wetSig ! i * w)
         \<and> (w = 0 \<longrightarrow> out = dry)
         \<and> (w = 1 \<and> (\<forall>ch \<in> set dry. \<forall>x \<in> set ch. x = 0) \<longrightarrow> out ! 1 = map uminus (out ! 0))"
proof -
  have ldry: "length dry = 2" using assms by simp
  have d0: "length (dry ! 0) = n" and d1: "length (dry ! 1) = n"
    using assms by (simp_all add: rectangular_clearUnused)
  have ndry: "getNumSamples dry = n"
    using ldry d0 by (subst getNumSamples_nth0) auto
  have rdry: "rectangular dry"
    unfolding rectangular_def
  proof
    fix ch assume "ch \<in> set dry"
    then obtain c where "c < length dry" "ch = dry ! c" by (auto simp: in_set_conv_nth)
    then have "c = 0 \<or> c = 1" using ldry by auto
    then show "length ch = getNumSamples dry" using d0 d1 ndry \<open>ch = dry ! c\<close> by auto
  qed
  have lw: "length wetSig = n"
    using length_renderWet [OF rdry ldry] assms(8) ndry by simp
  have out: "out = mix w n 2 dry wetSig dry"
    using assms by (simp add: processBlock_def Let_def case_prod_beta)
  have o0: "out ! 0 = fvo_addWithMultiply (fvo_multiply (fvo_copy (dry ! 0) (dry ! 0) n) (1 - w) n) wetSig w n"
    and o1: "out ! 1 = fvo_addWithMultiply (fvo_multiply (fvo_copy (dry ! 1) (dry ! 1) n) (1 - w) n) wetSig (- w) n"
    unfolding out using ldry by (simp_all add: nth_mix)
  have lo: "length out = 2" using ldry by (simp add: out)
  have l0: "length (out ! 0) = n"
    unfolding o0 by (rule length_mixed_channel [OF d0 d0 lw])
  have l1: "length (out ! 1) = n"
    unfolding o1 by (rule length_mixed_channel [OF d1 d1 lw])
  have pt: "\<forall>i<n. out ! 0 ! i = dry ! 0 ! i * (1 - w) + wetSig ! i * w
                  \<and> out ! 1 ! i = dry ! 1 ! i * (1 - w) - wetSig ! i * w"
    unfolding o0 o1
    using nth_mixed_sample [OF _ d0 d0 lw] nth_mixed_sample [OF _ d1 d1 lw] by simp
  have zero: "out = dry" if "w = 0"
  proof (rule nth_equalityI)
    show "length out = length dry" using lo ldry by simp
    fix c assume "c < length out"
    then have c: "c = 0 \<or> c = 1" using lo by auto
    show "out ! c = dry ! c"
    proof (rule nth_equalityI)
      show "length (out ! c) = length (dry ! c)" using c l0 l1 d0 d1 by auto
      fix i assume "i < length (out ! c)"
      then have "i < n" using c l0 l1 by auto
      then show "out ! c ! i = dry ! c ! i" using pt c that by auto
    qed
  qed
  have one: "out ! 1 = map uminus (out ! 0)" if "w = 1" and z: "\<forall>ch \<in> set dry. \<forall>x \<in> set ch. x = 0"
  proof (rule nth_equalityI)
    show "length (out ! 1) = length (map uminus (out ! 0))" using l0 l1 by simp
    fix i assume "i < length (out ! 1)"
    then have i: "i < n" using l1 by simp
    have "dry ! 0 \<in> set dry" "dry ! 1 \<in> set dry" using ldry by simp_all
    moreover have "dry ! 0 ! i \<in> set (dry ! 0)" "dry ! 1 ! i \<in> set (dry ! 1)"
      using i d0 d1 by simp_all
    ultimately have "dry ! 0 ! i = 0" "dry ! 1 ! i = 0" using z by blast+
    then show "out ! 1 ! i = map uminus (out ! 0) ! i"
      using pt i l0 that(1) by simp
  qed
  show ?thesis using lw lo l0 l1 pt zero one by blast
qed

theorem wet_dry_mix_witness:
  "\<not> bypass (apvts noPreDelay48k) > 0.5 \<and> rectangular [[1], [1]] \<and> length [[1], [1 :: real]] = 2
   \<and> totalNumOutputChannels noPreDelay48k = 2
   \<and> snd (snd (renderWet 4 0 noPreDelay48k [[1], [1]])) = [1 / 128]
   \<and> snd (snd (processBlock 4 0 1 0 noPreDelay48k [[1], [1]])) = [[129 / 256], [127 / 256]]"
proof -
  let ?out = "snd (snd (processBlock 4 0 1 0 noPreDelay48k [[1], [1]]))"
  have h1: "\<not> bypass (apvts noPreDelay48k) > 0.5"
    and h4: "totalNumOutputChannels noPreDelay48k = 2"
    by (simp_all add: processor_defs)
  have h2: "rectangular [[1], [1]]"
    by (simp add: rectangular_def getNumSamples_def)
  have h3: "length [[1], [1 :: real]] = 2" by simp
  have n: "1 = getNumSamples [[1], [1]]" by (simp add: getNumSamples_def)
  have w: "1 / 2 = wet (apvts noPreDelay48k)" by (simp add: processor_defs)
  have dry: "[[1], [1]] = clearUnused (totalNumInputChannels noPreDelay48k) 2 1 [[1], [1]]"
    by (simp add: processor_defs clearUnused_def)
  have wetSig: "[1 / 128] = snd (snd (renderWet 4 0 noPreDelay48k [[1], [1]]))"
    by (simp add: processor_defs filter_defs stage_defs; simp add: jlimit_def)
  note mix = wet_dry_mix [OF h1 h2 h3 h4 n w dry wetSig refl, of 0 1]
  have l: "length ?out = 2" and l0: "length (?out ! 0) = 1" and l1: "length (?out ! 1) = 1"
    and e0: "?out ! 0 ! 0 = 129 / 256" and e1: "?out ! 1 ! 0 = 127 / 256"
    using mix by simp_all
  have "?out = [[129 / 256], [127 / 256]]"
    by (rule list_of_two [OF l list_of_one [OF l0 e0] list_of_one [OF l1 e1]])
  then show ?thesis using h1 h2 h3 h4 wetSig [symmetric] by simp
qed

section \<open>The comb feedback gain\<close>

lemma feedbackGain_comb_processBlockScalar [simp]:
  "feedbackGain (fst (comb_processBlockScalar c input outp n)) = feedbackGain c"
  by (simp add: comb_processBlockScalar_def Let_def case_prod_beta)

lemma feedbackGain_comb_processBlockSIMD [simp]:
  "feedbackGain (fst (comb_processBlockSIMD W c input outp n)) = feedbackGain c"
  by (simp add: comb_processBlockSIMD_def Let_def case_prod_beta)

lemma combs_preDelay [simp]: "combs (fst (preDelay ms n p monoData)) = combs p"
  by (simp add: preDelay_def Let_def case_prod_beta)

lemma currentSampleRate_preDelay [simp]:
  "currentSampleRate (fst (preDelay ms n p monoData)) = currentSampleRate p"
  by (simp add: preDelay_def Let_def case_prod_beta)

lemma combs_allpassStage [simp]: "combs (fst (allpassStage W n dv p monoData)) = combs p"
  by (simp add: allpassStage_def Let_def case_prod_beta)

lemma ball_set_update:
  "\<forall>c \<in> set cs. P c \<Longrightarrow> P x \<Longrightarrow> \<forall>c \<in> set (cs[i := x]). P c"
  using set_update_subset_insert [of cs i x] by auto

lemma combStage_body_gain:
  fixes cs :: "SharcCombFilter list"
  assumes "length cs = k \<and> (\<forall>c \<in> set cs. feedbackGain c = G)"
  shows "length (fst (combStage_body W b n i (cs, m))) = k
         \<and> (\<forall>c \<in> set (fst (combStage_body W b n i (cs, m))). feedbackGain c = G)"
proof (cases "i < length cs")
  case True
  then have g: "feedbackGain (cs ! i) = G" using assms by simp
  have upd: "\<forall>c \<in> set (cs[i := x]). feedbackGain c = G" if "feedbackGain x = G" for x
    using assms that by (intro ball_set_update) auto
  have "\<forall>c \<in> set (cs[i := fst (comb_processBlockSIMD W (cs ! i) m (replicate n 0) n)]).
          feedbackGain c = G"
    and "\<forall>c \<in> set (cs[i := fst (comb_processBlockScalar (cs ! i) m (replicate n 0) n)]).
          feedbackGain c = G"
    by (rule upd, simp add: g)+
  then show ?thesis
    using assms by (simp add: combStage_body_def Let_def case_prod_beta)
next
  case False
  then have "cs[i := x] = cs" for x by (intro list_update_beyond) simp
  then show ?thesis
    using assms by (simp add: combStage_body_def Let_def case_prod_beta)
qed

lemma combStage_fold_gain:
  fixes st :: "SharcCombFilter list \<times> real list"
  assumes "length (fst st) = k \<and> (\<forall>c \<in> set (fst st). feedbackGain c = G)"
  shows "length (fst (fold (combStage_body W b n) js st)) = k
         \<and> (\<forall>c \<in> set (fst (fold (combStage_body W b n) js st)). feedbackGain c = G)"
  using assms
proof (induction js arbitrary: st)
  case Nil
  then show ?case by simp
next
  case (Cons j js)
  have "length (fst (combStage_body W b n j st)) = k
        \<and> (\<forall>c \<in> set (fst (combStage_body W b n j st)). feedbackGain c = G)"
    using combStage_body_gain [of "fst st" k G W b n j "snd st"] Cons.prems by simp
  then show ?case using Cons.IH by simp
qed

lemma combStage_gain:
  assumes "length (combs p) = k" and "\<forall>c \<in> set (combs p). feedbackGain c = G"
  shows "length (combs (fst (combStage W n p m))) = k
         \<and> (\<forall>c \<in> set (combs (fst (combStage W n p m))). feedbackGain c = G)"
  using combStage_fold_gain [of "(combs p, m)" k G W "useSIMD p" n "[0..<numCombs]"] assms
  by (simp add: combStage_def Let_def case_prod_beta)

text \<open>
  What the code assigns. A processed block (bypass off) leaves every one of the 4 comb
  filters with the same feedback gain: \<open>10\<close> to the power
  \<open>- 3 * avgDelayMs / (decayTime * 1000)\<close>, clamped into [0.1, 0.99], multiplied by
  \<open>1 + bassMult * 0.05\<close>, and the product clamped into [0, 0.99] by \<open>setGain\<close>. The
  code's \<open>avgDelayMs\<close> is one value for the whole bank: the mean of the four entries of
  the table \<open>combDelays\<close>, which holds the delay lengths at 48 kHz, divided by the
  current sample rate. No comb's own delay enters the formula, and neither do the delay
  lengths the combs were given by \<open>prepareToPlay\<close>.
\<close>

theorem comb_gain_assignment:
  assumes "\<not> bypass (apvts p) > 0.5"
    and "length (combs p) = 4"
    and "avgMs = (1116 + 1188 + 1277 + 1356) / 4 * 1000 / currentSampleRate p"
    and "p' = fst (snd (processBlock simdWidth startTime endTime prevSample p buffer))"
  shows "length (combs p') = 4
         \<and> (\<forall>c \<in> set (combs p'). feedbackGain c =
               jlimit 0 0.99
                 (jlimit 0.1 0.99 (10 powr (- 3 * avgMs / (decay (apvts p) * 1000)))
                    * (1 + bassmult (apvts p) * 0.05)))"
proof -
  let ?G = "jlimit 0 0.99
                 (jlimit 0.1 0.99 (10 powr (- 3 * avgMs / (decay (apvts p) * 1000)))
                    * (1 + bassmult (apvts p) * 0.05))"
  let ?n = "getNumSamples buffer"
  let ?buf = "clearUnused (totalNumInputChannels p) (totalNumOutputChannels p) ?n buffer"
  let ?m = "getNumSamples ?buf"
  let ?p1 = "p\<lparr> useSIMD := (simd (apvts p) > 0.5) \<rparr>"
  let ?mono1 = "snd (hiCut (hicut (apvts p)) ?m prevSample (downmix (totalNumInputChannels p) ?m ?buf))"
  let ?pd = "preDelay (predelay (apvts p)) ?m ?p1 ?mono1"
  let ?p3 = "updateCombs (damping (apvts p)) (decay (apvts p)) (bassmult (apvts p)) (fst ?pd)"
  let ?cs = "combStage simdWidth ?m ?p3 (snd ?pd)"
  have avg: "avgDelayMs (currentSampleRate p) = avgMs"
    by (simp add: avgDelayMs_def combDelays_def assms(3))
  have G: "combGainFor (currentSampleRate p) (decay (apvts p)) (bassmult (apvts p))
             = jlimit 0.1 0.99 (10 powr (- 3 * avgMs / (decay (apvts p) * 1000)))
                 * (1 + bassmult (apvts p) * 0.05)"
    by (simp add: combGainFor_def Let_def avg)
  have p3: "length (combs ?p3) = 4" "\<forall>c \<in> set (combs ?p3). feedbackGain c = ?G"
    using assms(2) by (simp_all add: updateCombs_def Let_def comb_setGain_def comb_setDampingFreq_def G)
  have "combs p' = combs (fst ?cs)"
    using assms(1,4) by (simp add: processBlock_def renderWet_def Let_def case_prod_beta)
  then show ?thesis
    using combStage_gain [OF p3] by simp
qed

theorem comb_gain_assignment_witness:
  "\<not> bypass (apvts noPreDelay48k) > 0.5 \<and> length (combs noPreDelay48k) = 4
   \<and> map feedbackGain (combs (fst (snd (processBlock 4 0 1 0 noPreDelay48k [[1], [1]]))))
       = replicate 4 (jlimit 0 0.99 (jlimit 0.1 0.99 (10 powr (- 3 * (4937 / 192) / 5000))))"
proof -
  let ?cs = "combs (fst (snd (processBlock 4 0 1 0 noPreDelay48k [[1], [1]])))"
  have h1: "\<not> bypass (apvts noPreDelay48k) > 0.5"
    and h2: "length (combs noPreDelay48k) = 4"
    by (simp_all add: processor_defs)
  have avg: "(4937 / 192 :: real) = (1116 + 1188 + 1277 + 1356) / 4 * 1000 / currentSampleRate noPreDelay48k"
    by (simp add: processor_defs)
  have prm: "decay (apvts noPreDelay48k) = 5" "bassmult (apvts noPreDelay48k) = 0"
    by (simp_all add: processor_defs)
  have "length ?cs = 4
        \<and> (\<forall>c \<in> set ?cs. feedbackGain c
               = jlimit 0 0.99 (jlimit 0.1 0.99 (10 powr (- 3 * (4937 / 192) / 5000))))"
    using comb_gain_assignment [OF h1 h2 avg refl, of 4 0 1 0 "[[1], [1]]", unfolded prm]
    by simp
  then have "map feedbackGain ?cs
               = replicate 4 (jlimit 0 0.99 (jlimit 0.1 0.99 (10 powr (- 3 * (4937 / 192) / 5000))))"
    by (intro map_const_replicate) simp_all
  then show ?thesis using h1 h2 by simp
qed

section \<open>The vectorized path on long delay lines\<close>

text \<open>
  When the active delay length is at least the SIMD width and the cursor lies inside
  the active length, the positions a group touches are distinct, so gathering all
  delayed samples before storing any reads the same values as the scalar loop does.
\<close>

lemma mod_shift_neq:
  fixes a j k len :: nat
  assumes "j < k" and "k < len"
  shows "(a + j) mod len \<noteq> (a + k) mod len"
proof
  assume "(a + j) mod len = (a + k) mod len"
  then have "(a + k) mod len = (a + j) mod len" by simp
  then have "len dvd (a + k) - (a + j)"
    using assms by (subst (asm) mod_eq_dvd_iff_nat) auto
  then have "len dvd k - j" by simp
  then have "len \<le> k - j" using assms by (intro dvd_imp_le) auto
  then show False using assms by simp
qed

lemma nth_fold_update_other:
  "\<forall>j \<in> set js. f j \<noteq> q \<Longrightarrow> fold (\<lambda>j b. b[f j := v j]) js b ! q = b ! q"
  by (induction js arbitrary: b) auto

lemma fold_update_cong:
  "(\<And>j. j \<in> set js \<Longrightarrow> v j = w j) \<Longrightarrow>
   fold (\<lambda>j b. b[f j := v j]) js b = fold (\<lambda>j b. b[f j := w j]) js b"
  by (induction js arbitrary: b) auto

lemma wrap_cursor:
  fixes idx len :: nat
  shows "idx < len \<Longrightarrow> (if idx + 1 \<ge> len then 0 else idx + 1) = (idx + 1) mod len"
  by (cases "Suc idx = len") auto

lemma ap_scalar_steps:
  assumes "k \<le> len" and "idx < len"
  shows "fold (ap_scalar_body g len input) [i..<i + k] (B, idx, outp) =
           (fold (\<lambda>j b. b[(idx + j) mod len := input ! (i + j) + B ! ((idx + j) mod len) * g]) [0..<k] B,
            (idx + k) mod len,
            fold (\<lambda>j out. out[i + j := - g * input ! (i + j) + B ! ((idx + j) mod len)]) [0..<k] outp)"
  using assms(1)
proof (induction k)
  case 0
  then show ?case using assms(2) by simp
next
  case (Suc k)
  let ?Bk = "fold (\<lambda>j b. b[(idx + j) mod len := input ! (i + j) + B ! ((idx + j) mod len) * g]) [0..<k] B"
  let ?Ok = "fold (\<lambda>j out. out[i + j := - g * input ! (i + j) + B ! ((idx + j) mod len)]) [0..<k] outp"
  let ?c = "(idx + k) mod len"
  have rd: "?Bk ! ?c = B ! ?c"
    using Suc.prems by (intro nth_fold_update_other) (auto simp: mod_shift_neq)
  have "?c < len" using assms(2) by simp
  then have cur: "(if ?c + 1 \<ge> len then 0 else ?c + 1) = (idx + Suc k) mod len"
    by (subst wrap_cursor) (auto simp: mod_Suc_eq)
  have body: "ap_scalar_body g len input (i + k) (?Bk, ?c, ?Ok) =
                (?Bk[?c := input ! (i + k) + ?Bk ! ?c * g],
                 (if ?c + 1 \<ge> len then 0 else ?c + 1),
                 ?Ok[i + k := - g * input ! (i + k) + ?Bk ! ?c])"
    by (simp add: ap_scalar_body_def Let_def)
  have IH: "fold (ap_scalar_body g len input) [i..<i + k] (B, idx, outp) = (?Bk, ?c, ?Ok)"
    using Suc by simp
  have "fold (ap_scalar_body g len input) [i..<i + Suc k] (B, idx, outp) =
        ap_scalar_body g len input (i + k) (?Bk, ?c, ?Ok)"
    by (simp add: IH)
  also have "\<dots> = (?Bk[?c := input ! (i + k) + B ! ?c * g], (idx + Suc k) mod len,
                    ?Ok[i + k := - g * input ! (i + k) + B ! ?c])"
    by (simp only: body rd cur)
  finally show ?case by simp
qed

lemma ap_simd_body_eq_scalar:
  assumes "W \<le> len" and "idx < len"
  shows "ap_simd_body W g len input i (B, idx, outp) =
         fold (ap_scalar_body g len input) [i..<i + W] (B, idx, outp)"
proof -
  let ?delayed = "map (\<lambda>j. B ! ((idx + j) mod len)) [0..<W]"
  let ?inputVec = "map (\<lambda>j. input ! (i + j)) [0..<W]"
  let ?outVec = "map2 (\<lambda>x d. g * x * (- 1) + d) ?inputVec ?delayed"
  let ?newVals = "map2 (\<lambda>x d. x + g * d) ?inputVec ?delayed"
  have o: "fold (\<lambda>j out. out[i + j := ?outVec ! j]) [0..<W] outp =
           fold (\<lambda>j out. out[i + j := - g * input ! (i + j) + B ! ((idx + j) mod len)]) [0..<W] outp"
    by (rule fold_update_cong) simp
  have n: "fold (\<lambda>j b. b[(idx + j) mod len := ?newVals ! j]) [0..<W] B =
           fold (\<lambda>j b. b[(idx + j) mod len := input ! (i + j) + B ! ((idx + j) mod len) * g]) [0..<W] B"
    by (rule fold_update_cong) simp
  show ?thesis
    unfolding ap_scalar_steps [OF assms] ap_simd_body_def Let_def prod.case o n ..
qed

lemma ap_scalar_fold_cursor:
  assumes "idx < len"
  shows "fst (snd (fold (ap_scalar_body g len input) js (B, idx, outp))) < len"
  by (rule fold_invariant [where P = "\<lambda>s. fst (snd s) < len"])
     (use assms in \<open>auto simp: ap_scalar_body_def Let_def split: prod.splits\<close>)

lemma ap_simd_main_eq_scalar:
  assumes "W \<le> len" and "idx < len"
  shows "fold (ap_simd_body W g len input) (map (\<lambda>k. k * W) [0..<m]) (B, idx, outp) =
         fold (ap_scalar_body g len input) [0..<m * W] (B, idx, outp)"
proof (induction m)
  case 0
  then show ?case by simp
next
  case (Suc m)
  obtain B' idx' outp' where st:
    "fold (ap_scalar_body g len input) [0..<m * W] (B, idx, outp) = (B', idx', outp')"
    by (cases "fold (ap_scalar_body g len input) [0..<m * W] (B, idx, outp)") auto
  have "idx' < len"
    using ap_scalar_fold_cursor [OF assms(2), of g input "[0..<m * W]" B outp] st by simp
  then have grp: "ap_simd_body W g len input (m * W) (B', idx', outp') =
                  fold (ap_scalar_body g len input) [m * W..<m * W + W] (B', idx', outp')"
    by (rule ap_simd_body_eq_scalar [OF assms(1)])
  have split: "[0..<Suc m * W] = [0..<m * W] @ [m * W..<m * W + W]"
    using upt_add_eq_append [of 0 "m * W" W] by (simp add: add.commute)
  show ?case
    by (simp only: upt_Suc_append [OF le0] map_append list.map fold_append comp_apply
        fold_simps Suc.IH st grp split)
qed

text \<open>
  The allpass filter: with an active delay length of at least the SIMD width and the
  cursor inside the active length, the vectorized routine returns the filter state and
  the output block of the scalar routine.
\<close>

lemma ap_simd_eq_scalar:
  assumes "W \<le> ap_delaySamples a" and "ap_writeIndex a < ap_delaySamples a"
  shows "ap_processBlockSIMD W a input outp n = ap_processBlockScalar a input outp n"
proof -
  let ?vs = "n div W * W"
  have d: "?vs div W = n div W" by (cases "W = 0") auto
  have le: "?vs \<le> n" by simp
  have cat: "[0..<n] = [0..<?vs] @ [?vs..<n]"
    using upt_add_eq_append [of 0 ?vs "n - ?vs"] le by simp
  show ?thesis
    by (simp add: ap_processBlockSIMD_def ap_processBlockScalar_def Let_def d cat
        ap_simd_main_eq_scalar [OF assms])
qed

lemma comb_scalar_steps:
  fixes B :: "real list" and flt damp :: real and idx len :: nat
  assumes "k \<le> len" and "idx < len"
  defines "F \<equiv> damp_chain damp (\<lambda>j. B ! ((idx + j) mod len)) flt"
  shows "fold (comb_scalar_body g damp len input) [i..<i + k] (B, idx, flt, outp) =
           (fold (\<lambda>j b. b[(idx + j) mod len := input ! (i + j) + g * F (Suc j)]) [0..<k] B,
            (idx + k) mod len,
            F k,
            fold (\<lambda>j out. out[i + j := input ! (i + j) + g * F (Suc j)]) [0..<k] outp)"
  using assms(1)
proof (induction k)
  case 0
  then show ?case using assms(2) by (simp add: F_def)
next
  case (Suc k)
  let ?Bk = "fold (\<lambda>j b. b[(idx + j) mod len := input ! (i + j) + g * F (Suc j)]) [0..<k] B"
  let ?Ok = "fold (\<lambda>j out. out[i + j := input ! (i + j) + g * F (Suc j)]) [0..<k] outp"
  let ?c = "(idx + k) mod len"
  have rd: "?Bk ! ?c = B ! ?c"
    using Suc.prems by (intro nth_fold_update_other) (auto simp: mod_shift_neq)
  have "?c < len" using assms(2) by simp
  then have cur: "(if ?c + 1 \<ge> len then 0 else ?c + 1) = (idx + Suc k) mod len"
    by (subst wrap_cursor) (auto simp: mod_Suc_eq)
  have FS: "B ! ?c + damp * (F k - B ! ?c) = F (Suc k)"
    by (simp add: F_def)
  have body: "comb_scalar_body g damp len input (i + k) (?Bk, ?c, F k, ?Ok) =
                (?Bk[?c := input ! (i + k) + g * (?Bk ! ?c + damp * (F k - ?Bk ! ?c))],
                 (if ?c + 1 \<ge> len then 0 else ?c + 1),
                 ?Bk ! ?c + damp * (F k - ?Bk ! ?c),
                 ?Ok[i + k := input ! (i + k) + g * (?Bk ! ?c + damp * (F k - ?Bk ! ?c))])"
    by (simp add: comb_scalar_body_def Let_def)
  have IH: "fold (comb_scalar_body g damp len input) [i..<i + k] (B, idx, flt, outp)
              = (?Bk, ?c, F k, ?Ok)"
    using Suc by simp
  have "fold (comb_scalar_body g damp len input) [i..<i + Suc k] (B, idx, flt, outp) =
        comb_scalar_body g damp len input (i + k) (?Bk, ?c, F k, ?Ok)"
    by (simp add: IH)
  also have "\<dots> = (?Bk[?c := input ! (i + k) + g * F (Suc k)], (idx + Suc k) mod len, F (Suc k),
                    ?Ok[i + k := input ! (i + k) + g * F (Suc k)])"
    by (simp only: body rd cur FS)
  finally show ?case by simp
qed

lemma damp_scan:
  assumes "k \<le> W"
  shows "fold (\<lambda>j (f, vals). (map d [0..<W] ! j + damp * (f - map d [0..<W] ! j),
                              vals[j := map d [0..<W] ! j + damp * (f - map d [0..<W] ! j)]))
              [0..<k] (flt, vals0) =
         (damp_chain damp d flt k, fold (\<lambda>j v. v[j := damp_chain damp d flt (Suc j)]) [0..<k] vals0)"
  using assms by (induction k) simp_all

lemma nth_fold_update_self:
  "j < k \<Longrightarrow> k \<le> length v \<Longrightarrow> fold (\<lambda>j v. v[j := h j]) [0..<k] v ! j = h j"
  by (induction k) (auto simp: nth_list_update less_Suc_eq)

lemma comb_simd_body_eq_scalar:
  assumes "W \<le> len" and "idx < len"
  shows "comb_simd_body W g damp len input i (B, idx, flt, outp) =
         fold (comb_scalar_body g damp len input) [i..<i + W] (B, idx, flt, outp)"
proof -
  let ?d = "\<lambda>j. B ! ((idx + j) mod len)"
  let ?F = "damp_chain damp ?d flt"
  let ?inputVec = "map (\<lambda>j. input ! (i + j)) [0..<W]"
  let ?vals = "fold (\<lambda>j v. v[j := ?F (Suc j)]) [0..<W] (replicate W 0)"
  let ?outVec = "map2 (\<lambda>x d. x + g * d) ?inputVec ?vals"
  have scan: "fold (\<lambda>j (f, vals). (map ?d [0..<W] ! j + damp * (f - map ?d [0..<W] ! j),
                              vals[j := map ?d [0..<W] ! j + damp * (f - map ?d [0..<W] ! j)]))
                [0..<W] (flt, replicate W 0) = (?F W, ?vals)"
    by (rule damp_scan) simp
  have v: "?vals ! j = ?F (Suc j)" if "j < W" for j
    using that by (intro nth_fold_update_self) simp_all
  have ov: "?outVec ! j = input ! (i + j) + g * ?F (Suc j)" if "j \<in> set [0..<W]" for j
    using that v by simp
  have o: "fold (\<lambda>j out. out[i + j := ?outVec ! j]) [0..<W] outp =
           fold (\<lambda>j out. out[i + j := input ! (i + j) + g * ?F (Suc j)]) [0..<W] outp"
    by (rule fold_update_cong) (rule ov)
  have n: "fold (\<lambda>j b. b[(idx + j) mod len := ?outVec ! j]) [0..<W] B =
           fold (\<lambda>j b. b[(idx + j) mod len := input ! (i + j) + g * ?F (Suc j)]) [0..<W] B"
    by (rule fold_update_cong) (rule ov)
  show ?thesis
    unfolding comb_scalar_steps [OF assms] comb_simd_body_def Let_def prod.case scan o n ..
qed

lemma comb_scalar_fold_cursor:
  assumes "idx < len"
  shows "fst (snd (fold (comb_scalar_body g damp len input) js (B, idx, flt, outp))) < len"
  by (rule fold_invariant [where P = "\<lambda>s. fst (snd s) < len"])
     (use assms in \<open>auto simp: comb_scalar_body_def Let_def split: prod.splits\<close>)

lemma comb_simd_main_eq_scalar:
  assumes "W \<le> len" and "idx < len"
  shows "fold (comb_simd_body W g damp len input) (map (\<lambda>k. k * W) [0..<m]) (B, idx, flt, outp) =
         fold (comb_scalar_body g damp len input) [0..<m * W] (B, idx, flt, outp)"
proof (induction m)
  case 0
  then show ?case by simp
next
  case (Suc m)
  obtain B' idx' flt' outp' where st:
    "fold (comb_scalar_body g damp len input) [0..<m * W] (B, idx, flt, outp)
       = (B', idx', flt', outp')"
    by (cases "fold (comb_scalar_body g damp len input) [0..<m * W] (B, idx, flt, outp)") auto
  have "idx' < len"
    using comb_scalar_fold_cursor [OF assms(2), of g damp input "[0..<m * W]" B flt outp] st
    by simp
  then have grp: "comb_simd_body W g damp len input (m * W) (B', idx', flt', outp') =
                  fold (comb_scalar_body g damp len input) [m * W..<m * W + W] (B', idx', flt', outp')"
    by (rule comb_simd_body_eq_scalar [OF assms(1)])
  have split: "[0..<Suc m * W] = [0..<m * W] @ [m * W..<m * W + W]"
    using upt_add_eq_append [of 0 "m * W" W] by (simp add: add.commute)
  show ?case
    by (simp only: upt_Suc_append [OF le0] map_append list.map fold_append comp_apply
        fold_simps Suc.IH st grp split)
qed

text \<open>
  The comb filter: with an active delay length of at least the SIMD width and the cursor
  inside the active length, the vectorized routine returns the filter state and the
  output block of the scalar routine.
\<close>

lemma comb_simd_eq_scalar:
  assumes "W \<le> delaySamples c" and "writeIndex c < delaySamples c"
  shows "comb_processBlockSIMD W c input outp n = comb_processBlockScalar c input outp n"
proof -
  let ?vs = "n div W * W"
  have d: "?vs div W = n div W" by (cases "W = 0") auto
  have le: "?vs \<le> n" by simp
  have cat: "[0..<n] = [0..<?vs] @ [?vs..<n]"
    using upt_add_eq_append [of 0 ?vs "n - ?vs"] le by simp
  show ?thesis
    by (simp add: comb_processBlockSIMD_def comb_processBlockScalar_def Let_def d cat
        comb_simd_main_eq_scalar [OF assms])
qed

section \<open>The recurrence the allpass loop realizes\<close>

lemma ap_scalar_fold_indep:
  "fst (fold (ap_scalar_body g len input) js (B, idx, outp1))
     = fst (fold (ap_scalar_body g len input) js (B, idx, outp2))
   \<and> fst (snd (fold (ap_scalar_body g len input) js (B, idx, outp1)))
     = fst (snd (fold (ap_scalar_body g len input) js (B, idx, outp2)))"
proof (induction js arbitrary: B idx outp1 outp2)
  case Nil
  then show ?case by simp
next
  case (Cons j js)
  show ?case
    using Cons [of "B[idx := input ! j + B ! idx * g]" "if len \<le> idx + 1 then 0 else idx + 1"
                   "outp1[j := - g * input ! j + B ! idx]" "outp2[j := - g * input ! j + B ! idx]"]
    by (simp add: ap_scalar_body_def Let_def)
qed

lemma ap_scalar_fold_buffer_length:
  "length (fst (fold (ap_scalar_body g len input) js st)) = length (fst st)"
  by (rule fold_invariant [where P = "\<lambda>s. length (fst s) = length (fst st)"])
     (auto simp: ap_scalar_body_def Let_def split: prod.splits)

lemma ap_scalar_body_apply:
  "ap_scalar_body g len input i (B, c, outp) =
     (B[c := input ! i + B ! c * g], (if c + 1 \<ge> len then 0 else c + 1),
      outp[i := - g * input ! i + B ! c])"
  by (simp add: ap_scalar_body_def Let_def)

lemma ap_scalar_fold_cursor_eq:
  assumes "idx < len"
  shows "fst (snd (fold (ap_scalar_body g len input) [0..<n] (B, idx, outp))) = (idx + n) mod len"
proof (induction n)
  case 0
  then show ?case using assms by simp
next
  case (Suc n)
  obtain B' c' outp' where st:
    "fold (ap_scalar_body g len input) [0..<n] (B, idx, outp) = (B', c', outp')"
    by (cases "fold (ap_scalar_body g len input) [0..<n] (B, idx, outp)") auto
  then have c': "c' = (idx + n) mod len" using Suc by simp
  then have "c' < len" using assms by simp
  then have "(if c' + 1 \<ge> len then 0 else c' + 1) = (idx + Suc n) mod len"
    by (subst wrap_cursor) (auto simp: c' mod_Suc_eq)
  then show ?case
    by (simp add: st ap_scalar_body_apply del: One_nat_def)
qed

lemma nth_fold_update_first:
  assumes "0 < k" and "f 0 < length b" and "\<forall>j \<in> set [1..<k]. f j \<noteq> f 0"
  shows "fold (\<lambda>j b. b[f j := v j]) [0..<k] b ! f 0 = v 0"
proof -
  have "[0..<k] = 0 # [1..<k]" using assms(1) by (simp add: upt_conv_Cons)
  then have "fold (\<lambda>j b. b[f j := v j]) [0..<k] b = fold (\<lambda>j b. b[f j := v j]) [1..<k] (b[f 0 := v 0])"
    by simp
  then show ?thesis
    using nth_fold_update_other [OF assms(3), of v "b[f 0 := v 0]"] assms(2) by simp
qed

text \<open>
  \<open>ap_delayed g len input B idx n\<close> is the sample the loop reads from the delay line
  at step \<open>n\<close>, and \<open>ap_out\<close> the sample it outputs there.
\<close>

lemma ap_delayed_shift:
  assumes "idx < len" and "len \<le> length B" and "len \<le> n"
  shows "ap_delayed g len input B idx n
           = input ! (n - len) + g * ap_delayed g len input B idx (n - len)"
proof -
  let ?m = "n - len"
  obtain B' c' outp' where st:
    "fold (ap_scalar_body g len input) [0..<?m] (B, idx, []) = (B', c', outp')"
    by (cases "fold (ap_scalar_body g len input) [0..<?m] (B, idx, [])") auto
  have c': "c' = (idx + ?m) mod len"
    using ap_scalar_fold_cursor_eq [OF assms(1), of g input ?m B "[]"] st by simp
  then have c'lt: "c' < len" using assms(1) by simp
  have lB': "length B' = length B"
    using ap_scalar_fold_buffer_length [of g len input "[0..<?m]" "(B, idx, [])"] st by simp
  have n: "n = ?m + len" using assms(3) by simp
  have "fold (ap_scalar_body g len input) [0..<n] (B, idx, []) =
        fold (ap_scalar_body g len input) [?m..<?m + len] (B', c', outp')"
    using upt_add_eq_append [of 0 ?m len] n st by simp
  also have "\<dots> =
        (fold (\<lambda>j b. b[(c' + j) mod len := input ! (?m + j) + B' ! ((c' + j) mod len) * g]) [0..<len] B',
         (c' + len) mod len,
         fold (\<lambda>j out. out[?m + j := - g * input ! (?m + j) + B' ! ((c' + j) mod len)]) [0..<len] outp')"
    by (rule ap_scalar_steps [OF le_refl c'lt])
  finally have stn: "fold (ap_scalar_body g len input) [0..<n] (B, idx, []) =
        (fold (\<lambda>j b. b[(c' + j) mod len := input ! (?m + j) + B' ! ((c' + j) mod len) * g]) [0..<len] B',
         c',
         fold (\<lambda>j out. out[?m + j := - g * input ! (?m + j) + B' ! ((c' + j) mod len)]) [0..<len] outp')"
    using c'lt by simp
  have other: "\<forall>j \<in> set [1..<len]. (c' + j) mod len \<noteq> (c' + 0) mod len"
  proof
    fix j assume "j \<in> set [1..<len]"
    then have "0 < j" "j < len" by auto
    from mod_shift_neq [OF this, of c'] show "(c' + j) mod len \<noteq> (c' + 0) mod len"
      by metis
  qed
  have "fold (\<lambda>j b. b[(c' + j) mod len := input ! (?m + j) + B' ! ((c' + j) mod len) * g]) [0..<len] B'
          ! ((c' + 0) mod len)
        = input ! (?m + 0) + B' ! ((c' + 0) mod len) * g"
    using c'lt assms(2) lB' other by (intro nth_fold_update_first) auto
  then have "fold (\<lambda>j b. b[(c' + j) mod len := input ! (?m + j) + B' ! ((c' + j) mod len) * g]) [0..<len] B'
          ! c' = input ! ?m + B' ! c' * g"
    using c'lt by simp
  then show ?thesis
    by (simp add: ap_delayed_def stn st)
qed

lemma ap_out_recurrence:
  assumes "idx < len" and "len \<le> length B" and "len \<le> n"
  shows "ap_out g len input B idx n
           = - g * input ! n + (1 + g * g) * input ! (n - len) + g * ap_out g len input B idx (n - len)"
  using ap_delayed_shift [OF assms, of g input]
  by (simp add: ap_out_def algebra_simps)

lemma ap_scalar_fold_output:
  assumes "n < N" and "N \<le> length outp"
  shows "snd (snd (fold (ap_scalar_body g len input) [0..<N] (B, idx, outp))) ! n
           = ap_out g len input B idx n"
  using assms
proof (induction N)
  case 0
  then show ?case by simp
next
  case (Suc N)
  obtain B' c' outp' where st:
    "fold (ap_scalar_body g len input) [0..<N] (B, idx, outp) = (B', c', outp')"
    by (cases "fold (ap_scalar_body g len input) [0..<N] (B, idx, outp)") auto
  have l: "length outp' = length outp"
    using ap_scalar_fold_length [of g len input "[0..<N]" "(B, idx, outp)"] st by simp
  have same: "fst (fold (ap_scalar_body g len input) [0..<N] (B, idx, [])) = B'
              \<and> fst (snd (fold (ap_scalar_body g len input) [0..<N] (B, idx, []))) = c'"
    using ap_scalar_fold_indep [of g len input "[0..<N]" B idx outp "[]"] st by simp
  show ?case
  proof (cases "n = N")
    case True
    then show ?thesis
      using Suc.prems l same
      by (simp add: st ap_scalar_body_apply ap_out_def ap_delayed_def case_prod_beta)
  next
    case False
    then have "n < N" using Suc.prems by simp
    then have "outp' ! n = ap_out g len input B idx n"
      using Suc.IH Suc.prems st by simp
    then show ?thesis
      using False by (simp add: st ap_scalar_body_apply)
  qed
qed

text \<open>
  For a prepared allpass filter with the cursor inside an active length \<open>M\<close> that fits
  the delay line, the output block of the scalar routine satisfies, from sample \<open>M\<close> on,
  \<open>y[n] = - g * x[n] + (1 + g * g) * x[n - M] + g * y[n - M]\<close>: the Schroeder recurrence
  with the coefficient of \<open>x[n - M]\<close> raised from 1 to \<open>1 + g * g\<close>.
\<close>

lemma ap_processBlockScalar_recurrence:
  assumes "ap_prepared a"
    and "ap_writeIndex a < ap_delaySamples a"
    and "ap_delaySamples a \<le> length (ap_delayLine a)"
    and "length outp = N"
    and "ys = snd (ap_processBlockScalar a input outp N)"
    and "M = ap_delaySamples a" and "g = apGain a"
    and "M \<le> n" and "n < N"
  shows "ys ! n = - g * input ! n + (1 + g * g) * input ! (n - M) + g * ys ! (n - M)"
proof -
  have ys: "ys = snd (snd (fold (ap_scalar_body g M input) [0..<N]
                      (ap_delayLine a, ap_writeIndex a, outp)))"
    using assms by (simp add: ap_processBlockScalar_def case_prod_beta)
  have "ys ! n = ap_out g M input (ap_delayLine a) (ap_writeIndex a) n"
    and "ys ! (n - M) = ap_out g M input (ap_delayLine a) (ap_writeIndex a) (n - M)"
    unfolding ys using assms by (simp_all add: ap_scalar_fold_output)
  then show ?thesis
    using ap_out_recurrence [of "ap_writeIndex a" M "ap_delayLine a" n g input] assms by simp
qed

section \<open>The allpass filter, sample by sample\<close>

lemma ap_scalar_fold_spec:
  "n = length input - k \<Longrightarrow> k \<le> length input \<Longrightarrow> length outp = length input \<Longrightarrow> idx < M \<Longrightarrow>
   fold (ap_scalar_body g M input) [k..<length input] (buffer, idx, outp) =
     (let ((line, cursor), ys) = spec_allpass_run g M (buffer, idx) (drop k input)
      in (line, cursor, take k outp @ ys))"
proof (induction n arbitrary: k buffer idx outp)
  case 0
  then show ?case by simp
next
  case (Suc n)
  then have klt: "k < length input" by simp
  let ?delayed = "buffer ! idx"
  let ?y = "- g * input ! k + ?delayed"
  let ?line = "buffer[idx := input ! k + g * ?delayed]"
  let ?idx = "(idx + 1) mod M"
  have body: "ap_scalar_body g M input k (buffer, idx, outp) = (?line, ?idx, outp[k := ?y])"
    using Suc.prems(4) by (simp add: ap_scalar_body_apply wrap_cursor mult.commute del: One_nat_def)
  have samp: "spec_allpass_sample g M (buffer, idx) (input ! k) = ((?line, ?idx), ?y)"
    by (simp add: spec_allpass_sample_def Let_def)
  have idx': "?idx < M" using Suc.prems(4) by simp
  obtain line cursor ys where
    run: "spec_allpass_run g M (?line, ?idx) (drop (Suc k) input) = ((line, cursor), ys)"
    by (cases "spec_allpass_run g M (?line, ?idx) (drop (Suc k) input)") auto
  have "fold (ap_scalar_body g M input) [Suc k..<length input] (?line, ?idx, outp[k := ?y]) =
            (let ((line, cursor), ys) = spec_allpass_run g M (?line, ?idx) (drop (Suc k) input)
             in (line, cursor, take (Suc k) (outp[k := ?y]) @ ys))"
    using Suc.prems klt idx' by (intro Suc.IH) auto
  then have IH: "fold (ap_scalar_body g M input) [Suc k..<length input] (?line, ?idx, outp[k := ?y])
                   = (line, cursor, take k outp @ ?y # ys)"
    using klt Suc.prems(3) by (simp only: run take_Suc_update) simp
  have dr: "drop k input = input ! k # drop (Suc k) input"
    using klt by (simp add: Cons_nth_drop_Suc)
  have lhs: "fold (ap_scalar_body g M input) [k..<length input] (buffer, idx, outp)
              = (line, cursor, take k outp @ ?y # ys)"
    using klt by (simp only: upt_conv_Cons fold_simps body IH)
  have rhs: "spec_allpass_run g M (buffer, idx) (drop k input) = ((line, cursor), ?y # ys)"
    by (simp only: dr spec_allpass_run.simps samp run Let_def prod.case)
  show ?case
    by (simp only: lhs rhs Let_def prod.case)
qed

text \<open>
  For a prepared allpass filter with the cursor inside
  the active length, the scalar routine reads the delayed sample at the cursor, outputs
  \<open>- g * input + delayed\<close>, stores \<open>input + g * delayed\<close> at the cursor and advances the
  cursor by one modulo the active length, sample after sample.
\<close>

lemma ap_processBlockScalar_per_sample:
  assumes "ap_prepared a"
    and "ap_writeIndex a < ap_delaySamples a"
    and "length input = numSamples"
    and "length outp = numSamples"
  shows "ap_processBlockScalar a input outp numSamples =
           (let ((line, cursor), ys) =
                  spec_allpass_run (apGain a) (ap_delaySamples a)
                    (ap_delayLine a, ap_writeIndex a) input
            in (a\<lparr> ap_delayLine := line, ap_writeIndex := cursor \<rparr>, ys))"
proof -
  have "fold (ap_scalar_body (apGain a) (ap_delaySamples a) input)
          [0..<length input] (ap_delayLine a, ap_writeIndex a, outp) =
        (let ((line, cursor), ys) =
               spec_allpass_run (apGain a) (ap_delaySamples a)
                 (ap_delayLine a, ap_writeIndex a) (drop 0 input)
         in (line, cursor, take 0 outp @ ys))"
    using assms by (intro ap_scalar_fold_spec) auto
  then show ?thesis
    using assms(1,3) by (simp add: ap_processBlockScalar_def split: prod.splits)
qed

section \<open>What prepareToPlay resets\<close>

text \<open>
  \<open>prepareToPlay\<close> leaves the pre-delay line, the comb lines and the allpass lines
  silent, every cursor at 0 and every comb's damping memory at 0. The hi-cut memory is
  not among the things it returns: it lives outside the processor.
\<close>

lemma prepareToPlay_resets:
  assumes "p' = prepareToPlay sampleRate samplesPerBlock p"
  shows "set (preDelayBuffer p') \<subseteq> {0} \<and> preDelayWritePos p' = 0
         \<and> length (combs p') = 4 \<and> length (allpasses p') = 8
         \<and> (\<forall>c \<in> set (combs p'). set (delayLine c) \<subseteq> {0} \<and> writeIndex c = 0 \<and> filterState c = 0)
         \<and> (\<forall>a \<in> set (allpasses p'). set (ap_delayLine a) \<subseteq> {0} \<and> ap_writeIndex a = 0)"
  unfolding assms
  by (auto simp: prepareToPlay_def Let_def numCombs_def numAllpasses_def comb_prepare_def
      comb_setDelaySamples_def ap_prepare_def ap_setDelaySamples_def)

section \<open>The cursor stays inside the active length\<close>

text \<open>
  The filters are used with the cursor below the active delay length and the active
  length within the delay line: \<open>prepare\<close> followed by \<open>setDelaySamples\<close> establishes
  this for a line of at least one sample, and both block routines keep it.
\<close>

lemma comb_prepare_valid:
  assumes "1 \<le> maxDelaySamples"
    and "c' = comb_setDelaySamples newDelay (comb_prepare sr maxDelaySamples g0 f0 c)"
  shows "prepared c' \<and> writeIndex c' < delaySamples c' \<and> delaySamples c' \<le> length (delayLine c')"
  using assms by (auto simp: comb_setDelaySamples_def comb_prepare_def jlimit_def)

lemma comb_processBlockScalar_valid:
  assumes "writeIndex c < delaySamples c"
    and "c' = fst (comb_processBlockScalar c input outp n)"
  shows "writeIndex c' < delaySamples c' \<and> delaySamples c' = delaySamples c
         \<and> length (delayLine c') = length (delayLine c) \<and> prepared c' = prepared c"
proof -
  let ?st = "fold (comb_scalar_body (feedbackGain c) (dampingCoeff c) (delaySamples c) input)
               [0..<n] (delayLine c, writeIndex c, filterState c, outp)"
  have "fst (snd ?st) < delaySamples c"
    by (rule comb_scalar_fold_cursor [OF assms(1)])
  moreover have "length (fst ?st) = length (delayLine c)"
    by (rule fold_invariant [where P = "\<lambda>s. length (fst s) = length (delayLine c)"])
       (auto simp: comb_scalar_body_def Let_def split: prod.splits)
  ultimately show ?thesis
    using assms by (auto simp: comb_processBlockScalar_def Let_def case_prod_beta)
qed

lemma ap_prepare_valid:
  assumes "1 \<le> maxDelaySamples"
    and "a' = ap_setDelaySamples newDelay (ap_prepare sr maxDelaySamples g0 a)"
  shows "ap_prepared a' \<and> ap_writeIndex a' < ap_delaySamples a'
         \<and> ap_delaySamples a' \<le> length (ap_delayLine a')"
  using assms by (auto simp: ap_setDelaySamples_def ap_prepare_def jlimit_def)

lemma ap_processBlockScalar_valid:
  assumes "ap_writeIndex a < ap_delaySamples a"
    and "a' = fst (ap_processBlockScalar a input outp n)"
  shows "ap_writeIndex a' < ap_delaySamples a' \<and> ap_delaySamples a' = ap_delaySamples a
         \<and> length (ap_delayLine a') = length (ap_delayLine a) \<and> ap_prepared a' = ap_prepared a"
proof -
  let ?st = "fold (ap_scalar_body (apGain a) (ap_delaySamples a) input)
               [0..<n] (ap_delayLine a, ap_writeIndex a, outp)"
  have "fst (snd ?st) < ap_delaySamples a"
    by (rule ap_scalar_fold_cursor [OF assms(1)])
  moreover have "length (fst ?st) = length (ap_delayLine a)"
    by (rule ap_scalar_fold_buffer_length [of _ _ _ _ "(ap_delayLine a, ap_writeIndex a, outp)", simplified])
  ultimately show ?thesis
    using assms by (auto simp: ap_processBlockScalar_def Let_def case_prod_beta)
qed

section \<open>The comb gain at other sample rates\<close>

text \<open>
  Bounds on powers of ten, to decide the clamps of the gain formula, and the agreement
  of the code's \<open>avgDelayMs\<close> with the bank-average delay time at 48 kHz.
\<close>

lemma ln10_gt_2: "2 < ln (10 :: real)"
proof -
  have "exp (2 :: real) = exp 1 * exp 1" by (simp add: exp_add [symmetric])
  also have "\<dots> \<le> 3 * 3" by (intro mult_mono exp_le) simp_all
  finally have "exp (2 :: real) < 10" by simp
  then have "exp (2 :: real) < exp (ln 10)" by simp
  then show ?thesis by (simp only: exp_less_cancel_iff)
qed

lemma ten_powr_minus_bounds:
  fixes a :: real
  assumes "51 / 10000 \<le> a" and "a < 1"
  shows "1 / 10 < 10 powr (- a) \<and> 10 powr (- a) < 99 / 100"
proof -
  have "10 powr (- 1 :: real) < 10 powr (- a)"
    using assms by (intro powr_less_mono) simp_all
  then have lo: "1 / 10 < 10 powr (- a)" by (simp add: powr_minus)
  have "1 + a * ln 10 \<le> exp (a * ln 10)" by (rule exp_ge_add_one_self)
  moreover have "a * 2 < a * ln 10" using assms ln10_gt_2 by (intro mult_strict_left_mono) simp_all
  moreover have "10 powr a = exp (a * ln 10)" by (simp add: powr_def)
  ultimately have "1 + 2 * a < 10 powr a" by linarith
  then have big: "100 / 99 < 10 powr a" using assms by simp
  have "10 powr (- a) = 1 / (10 powr a)" by (simp add: powr_minus inverse_eq_divide)
  also have "\<dots> < 1 / (100 / 99)" using big by (intro divide_strict_left_mono) simp_all
  finally have hi: "10 powr (- a) < 99 / 100" by simp
  show ?thesis using lo hi by simp
qed

lemma jlimit_inside:
  fixes x :: real
  assumes "1 / 10 < x" and "x < 99 / 100"
  shows "jlimit 0 0.99 (jlimit 0.1 0.99 x * (1 + 0 * 0.05)) = x"
  using assms by (simp add: jlimit_def)

lemma avgDelayMs_right_at_48k:
  "spec_avgDelayMs prepared48k = 4937 / 192 \<and> avgDelayMs (currentSampleRate prepared48k) = 4937 / 192"
proof -
  have d: "map delaySamples (combs prepared48k) = [1116, 1188, 1277, 1356]"
    by (simp add: processor_defs filter_defs upt_0_numeral upt_Suc_numeral)
  have sr: "currentSampleRate prepared48k = 48000" and h2: "length (combs prepared48k) = 4"
    by (simp_all add: processor_defs)
  have "sum_list (map (\<lambda>c. real (delaySamples c)) (combs prepared48k))
          = sum_list (map real (map delaySamples (combs prepared48k)))"
    by (simp add: comp_def)
  then have "spec_avgDelayMs prepared48k = 4937 / 192"
    by (simp add: spec_avgDelayMs_def d sr h2)
  moreover have "avgDelayMs (currentSampleRate prepared48k) = 4937 / 192"
    by (simp add: avgDelayMs_def combDelays_def sr)
  ultimately show ?thesis by simp
qed

section \<open>Where the code departs from the specification\<close>

text \<open>
  Claim C1 says that each of the 4 combs filters the identical pre-delay output, that
  the 4 outputs are summed and that the sum is scaled by 0.25. The code does not do
  that: comb 0's output is copied over \<open>monoData\<close>, the array every later comb reads
  its input from, so comb 1 filters comb 0's output, comb 2 filters the sum of the first
  two outputs, and comb 3 the sum of the first three. On a processor prepared at 48 kHz
  with the default parameters and the one-sample block \<open>[1]\<close>, the samples the four
  combs store in their delay lines (their input, the lines being silent) are 1, 1, 2 and
  4, and the stage outputs 2, where the parallel bank of the claim outputs 1.
\<close>

theorem combs_fed_in_series:
  "snd (combStage 4 1 (updateCombs 50 5 0 prepared48k) [1]) = [2]
   \<and> map (\<lambda>c. delayLine c ! 0) (combs (fst (combStage 4 1 (updateCombs 50 5 0 prepared48k) [1])))
       = [1, 1, 2, 4]
   \<and> spec_combBank (combs (updateCombs 50 5 0 prepared48k)) [1] = [1]"
  by (simp add: spec_combBank_def processor_defs filter_defs stage_defs)

text \<open>
  Claim C2 says that the vectorized routines give the output and state of the scalar
  ones for every active delay length. They do not when the active delay length is below
  the SIMD width: a group then reads a delay-line position again before the sample
  written to it earlier in the same group is stored. At a sample rate of 4 kHz allpass 6
  has an active length of 3; on the block \<open>[1, 0, 0, 0]\<close> with a width of 4 the scalar
  routine outputs 1 as the fourth sample and the vectorized one 0. A comb filter set to
  an active length of 1 differs in the same way from the second sample on.
\<close>

theorem simd_differs_on_short_delay:
  "ap_delaySamples (allpasses lowRate ! 6) = 3
   \<and> snd (ap_processBlockScalar (allpasses lowRate ! 6) [1, 0, 0, 0] [0, 0, 0, 0] 4)
       = [- 1 / 2, 0, 0, 1]
   \<and> snd (ap_processBlockSIMD 4 (allpasses lowRate ! 6) [1, 0, 0, 0] [0, 0, 0, 0] 4)
       = [- 1 / 2, 0, 0, 0]
   \<and> snd (comb_processBlockScalar shortComb [1, 1, 1, 1] [0, 0, 0, 0] 4) ! 1
       = 1 + 7 / 10 * (1 - exp (- (5 * pi / 24)))
   \<and> snd (comb_processBlockSIMD 4 shortComb [1, 1, 1, 1] [0, 0, 0, 0] 4) = [1, 1, 1, 1]"
  by (simp add: concrete_defs processor_defs filter_defs stage_defs simd_defs)

text \<open>
  Claim C6 says that after \<open>prepareToPlay\<close> every filter memory, the hi-cut memory
  included, is zero. The hi-cut memory is a \<open>static\<close> local of \<open>processBlock\<close> that
  \<open>prepareToPlay\<close> cannot reach. After one block \<open>[1]\<close> on both channels with a hi-cut of
  20 dB the memory holds 1/10; the processor is then prepared again at 96 kHz, and
  the next block, which is silent, comes out as 9/12800 on the left and - 9/12800 on
  the right.
\<close>

theorem hicut_memory_survives_prepare:
  "fst (processBlock 4 0 1 0 hiCut48k [[1], [1]]) = 1 / 10
   \<and> snd (snd (processBlock 4 1 2 (1 / 10)
                 (prepareToPlay 96000 512 (fst (snd (processBlock 4 0 1 0 hiCut48k [[1], [1]]))))
                 [[0], [0]]))
       = [[9 / 12800], [- 9 / 12800]]"
  by (simp add: concrete_defs processor_defs filter_defs stage_defs mix_defs; simp add: jlimit_def)

text \<open>
  Claim C7 says that blocks processed on one processor never change the hi-cut memory
  or the output of another one. Both use the same \<open>static\<close> variable. A processor
  prepared at 44.1 kHz turns a silent block into silence when the static memory is 0, as
  it is at program start; after another processor, prepared at 48 kHz, has processed the
  block \<open>[1]\<close>, the same silent block on the first processor comes out as 9/12800 and
  - 9/12800.
\<close>

theorem hicut_memory_shared_between_instances:
  "snd (snd (processBlock 4 1 2 0 hiCut44k [[0], [0]])) = [[0], [0]]
   \<and> snd (snd (processBlock 4 1 2 (fst (processBlock 4 0 1 0 hiCut48k [[1], [1]])) hiCut44k
                 [[0], [0]]))
       = [[9 / 12800], [- 9 / 12800]]"
  by (simp add: concrete_defs processor_defs filter_defs stage_defs mix_defs; simp add: jlimit_def)

text \<open>
  Claim C9 says that the scalar allpass routine realizes the Schroeder recurrence
  \<open>y[n] = - g * x[n] + x[n - M] + g * y[n - M]\<close>. The routine outputs
  \<open>- g * input + delayed\<close> and stores \<open>input + g * delayed\<close>, which is a different
  filter. Allpass 6 of a processor prepared at 48 kHz has \<open>M = 37\<close> and \<open>g = 1/2\<close>; on a
  unit impulse its sample 37 is 1, where the recurrence gives \<open>1 - g * g = 3/4\<close>.
\<close>

theorem allpass_not_schroeder:
  "ap_delaySamples (allpasses prepared48k ! 6) = 37 \<and> apGain (allpasses prepared48k ! 6) = 1 / 2
   \<and> snd (ap_processBlockScalar (allpasses prepared48k ! 6) impulse38 (replicate 38 0) 38) ! 37 = 1
   \<and> spec_schroeder (1 / 2) 37 impulse38 ! 37 = 3 / 4"
  by (simp add: spec_schroeder_def concrete_defs processor_defs filter_defs stage_defs)

text \<open>
  Claim C5 says that every block assigns all 4 combs one gain, \<open>10\<close> to the power
  \<open>- 3 * avgDelayMs / (decayTime * 1000)\<close> clamped into [0.1, 0.99], times
  \<open>1 + bassMult * 0.05\<close>, clamped into [0, 0.99], where \<open>avgDelayMs\<close> is the
  bank-average comb delay time in milliseconds. All 4 combs do get one gain of that
  form, but the value the code puts in for
  \<open>avgDelayMs\<close> is the mean of the 48 kHz table divided by the current sample rate, and
  \<open>prepareToPlay\<close> has scaled the delays of the combs by the sample rate. At 96 kHz the
  combs have 2232, 2376, 2554 and 2712 samples: their average delay time is
  4937/192 ms, as it is at every rate, and the code uses 4937/384 ms. With the default
  decay of 5 s the combs get \<open>10 powr - (14811 / 1920000)\<close>, where the gain of the claim
  is \<open>10 powr - (14811 / 960000)\<close>.
\<close>

theorem comb_gain_ignores_rate_scaling:
  "map delaySamples (combs prepared96k) = [2232, 2376, 2554, 2712]
   \<and> spec_avgDelayMs prepared96k = 4937 / 192
   \<and> avgDelayMs (currentSampleRate prepared96k) = 4937 / 384
   \<and> map feedbackGain (combs (fst (snd (processBlock 4 0 1 0 prepared96k [[1], [1]]))))
       = replicate 4 (10 powr (- (14811 / 1920000)))
   \<and> spec_combGain prepared96k = 10 powr (- (14811 / 960000))
   \<and> 10 powr (- (14811 / 1920000)) \<noteq> (10 :: real) powr (- (14811 / 960000))"
proof -
  let ?cs = "combs (fst (snd (processBlock 4 0 1 0 prepared96k [[1], [1]])))"
  have d: "map delaySamples (combs prepared96k) = [2232, 2376, 2554, 2712]"
    by (simp add: prepared96k_def processor_defs filter_defs upt_0_numeral upt_Suc_numeral)
  have sr: "currentSampleRate prepared96k = 96000"
    and ap: "decay (apvts prepared96k) = 5" "bassmult (apvts prepared96k) = 0"
    and h1: "\<not> bypass (apvts prepared96k) > 0.5"
    and h2: "length (combs prepared96k) = 4"
    by (simp_all add: prepared96k_def processor_defs)
  have "sum_list (map (\<lambda>c. real (delaySamples c)) (combs prepared96k))
          = sum_list (map real (map delaySamples (combs prepared96k)))"
    by (simp add: comp_def)
  then have savg: "spec_avgDelayMs prepared96k = 4937 / 192"
    by (simp add: spec_avgDelayMs_def d sr h2)
  have cavg: "avgDelayMs (currentSampleRate prepared96k) = 4937 / 384"
    by (simp add: avgDelayMs_def combDelays_def sr)
  have avg: "(4937 / 384 :: real) = (1116 + 1188 + 1277 + 1356) / 4 * 1000 / currentSampleRate prepared96k"
    by (simp add: sr)
  have b1: "1 / 10 < 10 powr (- (14811 / 1920000 :: real)) \<and> 10 powr (- (14811 / 1920000 :: real)) < 99 / 100"
    by (rule ten_powr_minus_bounds) simp_all
  have b2: "1 / 10 < 10 powr (- (14811 / 960000 :: real)) \<and> 10 powr (- (14811 / 960000 :: real)) < 99 / 100"
    by (rule ten_powr_minus_bounds) simp_all
  have e1: "(- 3 * (4937 / 384) / (5 * 1000) :: real) = - (14811 / 1920000)"
    and e2: "(- 3 * (4937 / 192) / (5 * 1000) :: real) = - (14811 / 960000)"
    by simp_all
  have "length ?cs = 4 \<and> (\<forall>c \<in> set ?cs. feedbackGain c = 10 powr (- (14811 / 1920000)))"
    using comb_gain_assignment [OF h1 h2 avg refl, of 4 0 1 0 "[[1], [1]]"]
    unfolding ap e1 jlimit_inside [OF conjunct1 [OF b1] conjunct2 [OF b1]] .
  then have g: "map feedbackGain ?cs = replicate 4 (10 powr (- (14811 / 1920000)))"
    by (intro map_const_replicate) simp_all
  have sg: "spec_combGain prepared96k = 10 powr (- (14811 / 960000))"
    unfolding spec_combGain_def savg ap e2 jlimit_inside [OF conjunct1 [OF b2] conjunct2 [OF b2]] ..
  have ne: "10 powr (- (14811 / 1920000)) \<noteq> (10 :: real) powr (- (14811 / 960000))"
    by (simp add: powr_inj)
  show ?thesis using d savg cavg g sg ne by blast
qed

end
